theory Spec2Isabelle
  imports Main "HOL-Library.Product_Lexorder" "HOL-Library.Multiset"
begin

section \<open>Loop orders, the substitution dictionary, Python errors\<close>

text \<open>
  The module \<^verbatim>\<open>pytensor/tensor/elemwise_cgen.py\<close> generates C code for loops over
  several strided arrays. A loop order is a tuple whose entries are either the letter
  \<^verbatim>\<open>'x'\<close> (the operand is broadcast at that position) or the index of a dimension of the
  operand.
\<close>

datatype entry = X | D nat

text \<open>
  The dictionary \<^verbatim>\<open>sub\<close> maps the keys \<^verbatim>\<open>"lv0"\<close>, \<^verbatim>\<open>"lv1"\<close>, ... to the C names of the
  operands and the key \<^verbatim>\<open>"fail"\<close> to the C code that leaves the generated function. A
  lookup of a missing key raises \<^verbatim>\<open>KeyError\<close>, an index past the end of a sequence raises
  \<^verbatim>\<open>IndexError\<close>.
\<close>

datatype key = Lv nat | Fail_key

type_synonym subst = "key \<rightharpoonup> string"

datatype py_error = KeyError | IndexError

definition bind_py :: "py_error + 'a \<Rightarrow> ('a \<Rightarrow> py_error + 'b) \<Rightarrow> py_error + 'b" where
  "bind_py m f = (case m of Inl e \<Rightarrow> Inl e | Inr x \<Rightarrow> f x)"

definition lookup :: "subst \<Rightarrow> key \<Rightarrow> py_error + string" where
  "lookup sub k = (case sub k of None \<Rightarrow> Inl KeyError | Some v \<Rightarrow> Inr v)"

text \<open>
  \<^verbatim>\<open>zip(*loop_orders)\<close>: the columns of the loop orders, as many as the shortest loop
  order has entries, and none when there is no loop order at all.
\<close>

definition zip_star :: "'a list list \<Rightarrow> 'a list list" where
  "zip_star xss =
     (if xss = [] then []
      else map (\<lambda>i. map (\<lambda>xs. xs ! i) xss) [0..<Min (set (map length xss))])"

section \<open>C integers\<close>

text \<open>
  The generated code computes with C integers of two widths: \<^verbatim>\<open>int\<close> has 32 bits,
  and \<^verbatim>\<open>npy_intp\<close>, \<^verbatim>\<open>ssize_t\<close>, \<^verbatim>\<open>size_t\<close> and the pointers have 64 bits. A value of a
  C variable is an integer in the range of its type; \<open>wrap32\<close> and \<open>wrap64\<close> bring an
  integer into the range of a signed type of 32 or 64 bits, as a conversion to the type
  and an arithmetic operation of the type do in two's complement.
\<close>

definition wrap32 :: "int \<Rightarrow> int" where
  "wrap32 x = (x + 2 ^ 31) mod 2 ^ 32 - 2 ^ 31"

definition wrap64 :: "int \<Rightarrow> int" where
  "wrap64 x = (x + 2 ^ 63) mod 2 ^ 64 - 2 ^ 63"

definition wrap :: "bool \<Rightarrow> int \<Rightarrow> int" where
  "wrap w x = (if w then wrap64 x else wrap32 x)"

section \<open>The generated C code\<close>

text \<open>
  The generated text is represented by its syntax tree: one constructor for each C
  construct the templates of the module contain. The type parameter \<open>'v\<close> is the type of
  the text that comes from \<^verbatim>\<open>sub\<close>: a \<^typ>\<open>key\<close> in a template that still holds
  \<^verbatim>\<open>%(lv0)s\<close> or \<^verbatim>\<open>%(fail)s\<close>, a \<^typ>\<open>string\<close> once \<^verbatim>\<open>% sub\<close> has been applied.

  C variables, with the Python format string that names each of them:
  \<^item> \<open>N var index\<close> is \<^verbatim>\<open>{var}_n{index}\<close>, \<open>Stride var index\<close> is \<^verbatim>\<open>{var}_stride{index}\<close>,
  \<^item> \<open>Jump var index j\<close> is \<^verbatim>\<open>{var}_jump{index}_{j}\<close> (the index may be \<^verbatim>\<open>x\<close>),
  \<^item> \<open>IterP var\<close> is \<^verbatim>\<open>{var}_iter\<close>, \<open>Elem var\<close> is the reference \<^verbatim>\<open>{var}_i\<close>,
  \<^item> \<open>ITER i\<close> is \<^verbatim>\<open>ITER_{i}\<close>, \<open>TOTAL i\<close> is \<^verbatim>\<open>TOTAL_{i}\<close>,
  \<^item> \<open>StrideL var j\<close> is \<^verbatim>\<open>{var}_stride_l{j}\<close>.
\<close>

datatype 'v cvar =
    N 'v nat
  | Stride 'v nat
  | Jump 'v entry nat
  | IterP 'v
  | Elem 'v
  | ITER nat
  | TOTAL nat
  | StrideL 'v nat

text \<open>
  The types of the variables: \<^verbatim>\<open>make_declare\<close> declares \<^verbatim>\<open>{var}_n{index}\<close> as
  \<^verbatim>\<open>npy_intp\<close>, \<^verbatim>\<open>{var}_stride{index}\<close> as \<^verbatim>\<open>ssize_t\<close>, \<^verbatim>\<open>{var}_jump{index}_{j}\<close> as
  \<^verbatim>\<open>int\<close> and \<^verbatim>\<open>{var}_iter\<close> as a pointer; the loops declare \<^verbatim>\<open>int ITER_{i}\<close>, and
  \<^verbatim>\<open>make_reordered_loop\<close> declares \<^verbatim>\<open>int TOTAL_{i}\<close> and \<^verbatim>\<open>int {var}_stride_l{j}\<close>.
  \<open>wide_var\<close> holds of the variables of 64 bits.
\<close>

fun wide_var :: "'v cvar \<Rightarrow> bool" where
  "wide_var (N var index) = True"
| "wide_var (Stride var index) = True"
| "wide_var (Jump var index j) = False"
| "wide_var (IterP var) = True"
| "wide_var (Elem var) = True"
| "wide_var (ITER i) = False"
| "wide_var (TOTAL i) = False"
| "wide_var (StrideL var j) = False"

text \<open>
  C expressions. \<open>Strides_Div var index dtype\<close> is the quotient
  \<^verbatim>\<open>PyArray_STRIDES({var})[{index}] / sizeof({dtype})\<close>, \<open>Abs_Strides var index\<close> is
  \<^verbatim>\<open>abs(PyArray_STRIDES({var})[{index}])\<close>, \<open>PyArray_DATA var dtype\<close> is
  \<^verbatim>\<open>({dtype}*)(PyArray_DATA({var}))\<close>.
\<close>

datatype 'v cexpr =
    Lit int
  | V "'v cvar"
  | PyArray_NDIM 'v
  | PyArray_DIMS 'v nat
  | Strides_Div 'v nat string
  | Abs_Strides 'v nat
  | PyArray_DATA 'v string
  | Neg "'v cexpr"
  | Sub "'v cexpr" "'v cexpr"
  | Add "'v cexpr" "'v cexpr"
  | Mul "'v cexpr" "'v cexpr"
  | Lt "'v cexpr" "'v cexpr"
  | Ge "'v cexpr" "'v cexpr"
  | Eq "'v cexpr" "'v cexpr"
  | Ne "'v cexpr" "'v cexpr"
  | Or "'v cexpr" "'v cexpr"

text \<open>
  The type of an expression, by the usual arithmetic conversions of C: an integer constant
  is an \<^verbatim>\<open>int\<close> when its value fits, \<^verbatim>\<open>PyArray_NDIM\<close> and the comparisons give an
  \<^verbatim>\<open>int\<close>, the lengths, the strides and the pointers have 64 bits, and an arithmetic
  operation has 64 bits when one of its operands has.
\<close>

fun wide :: "'v cexpr \<Rightarrow> bool" where
  "wide (Lit n) = (\<not> (- (2 ^ 31) \<le> n \<and> n < 2 ^ 31))"
| "wide (V v) = wide_var v"
| "wide (PyArray_NDIM var) = False"
| "wide (PyArray_DIMS var index) = True"
| "wide (Strides_Div var index dtype) = True"
| "wide (Abs_Strides var index) = True"
| "wide (PyArray_DATA var dtype) = True"
| "wide (Neg a) = wide a"
| "wide (Sub a b) = (wide a \<or> wide b)"
| "wide (Add a b) = (wide a \<or> wide b)"
| "wide (Mul a b) = (wide a \<or> wide b)"
| "wide (Lt a b) = False"
| "wide (Ge a b) = False"
| "wide (Eq a b) = False"
| "wide (Ne a b) = False"
| "wide (Or a b) = False"

text \<open>
  C statements:
  \<^item> \<open>Assign v e\<close> is \<^verbatim>\<open>v = e;\<close>, \<open>AddAssign v e\<close> is \<^verbatim>\<open>v += e;\<close>,
  \<^item> \<open>DeclRef dtype var e\<close> is \<^verbatim>\<open>{dtype} &{var}_i = * ( e );\<close>,
  \<^item> \<open>AssignArr a i e\<close> is \<^verbatim>\<open>{a}[{i}] = e;\<close>,
  \<^item> \<open>If b t e\<close> is \<^verbatim>\<open>if (b) { t } else { e }\<close> (the else branch may be empty),
  \<^item> \<open>PyErr_SetString m\<close> is \<^verbatim>\<open>PyErr_SetString(PyExc_ValueError, "m");\<close>,
  \<^item> \<open>PyErr_Format m es\<close> is \<^verbatim>\<open>PyErr_Format(PyExc_ValueError, "m", es);\<close>,
  \<^item> \<open>Fail_code f\<close> is the text \<^verbatim>\<open>%(fail)s\<close>, \<open>Task t\<close> is a piece of code of the caller's
    \<^verbatim>\<open>loop_tasks\<close>,
  \<^item> \<open>ForUp p i n body\<close> is \<^verbatim>\<open>for (int ITER_i = 0; ITER_i<n; ITER_i++) { body }\<close>, after the
    line \<^verbatim>\<open>#pragma omp parallel for if( c )\<close> when \<open>p = Some c\<close>,
  \<^item> \<open>ForDown i n body\<close> is \<^verbatim>\<open>for (int ITER_i = n; ITER_i; ITER_i--) { body }\<close>,
  \<^item> \<open>Block body\<close> is \<^verbatim>\<open>{ body }\<close>,
  \<^item> \<open>DeclLoops var n\<close> is the two declarations
    \<^verbatim>\<open>std::vector< std::pair<int, int> > {var}_loops({n});\<close> and
    \<^verbatim>\<open>std::vector< std::pair<int, int> >::iterator {var}_loops_it = {var}_loops.begin();\<close>,
  \<^item> \<open>SetFirst var e\<close> is \<^verbatim>\<open>{var}_loops_it->first = e;\<close>, \<open>SetSecond var i\<close> is
    \<^verbatim>\<open>{var}_loops_it->second = {i};\<close>, \<open>IncrIt var\<close> is \<^verbatim>\<open>++{var}_loops_it;\<close>,
  \<^item> \<open>SortLoops var\<close> is \<^verbatim>\<open>std::sort({var}_loops.rbegin(), {var}_loops.rend());\<close>,
  \<^item> \<open>ResetIt var\<close> is \<^verbatim>\<open>{var}_loops_it = {var}_loops.begin();\<close>,
  \<^item> \<open>DeclArr a n\<close> is \<^verbatim>\<open>int {a}[{n}];\<close>,
  \<^item> \<open>DeclTotal i a var\<close> is \<^verbatim>\<open>int TOTAL_{i} = {a}[{var}_loops_it->second];\<close>,
  \<^item> \<open>DeclInitStrides nvars nnested es\<close> is
    \<^verbatim>\<open>int init_strides[{nvars}][{nnested}] = { es };\<close>, where \<open>es\<close> is one list of
    expressions separated by commas,
  \<^item> \<open>DeclRit var\<close> is
    \<^verbatim>\<open>std::vector< std::pair<int, int> >::reverse_iterator {var}_loops_rit;\<close>,
    \<open>ResetRit var\<close> is \<^verbatim>\<open>{var}_loops_rit = {var}_loops.rbegin();\<close> and \<open>IncrRit var\<close> is
    \<^verbatim>\<open>++{var}_loops_rit;\<close>,
  \<^item> \<open>DeclStrideL var j i ovar\<close> is
    \<^verbatim>\<open>int {var}_stride_l{j} = init_strides[{i}][{ovar}_loops_rit->second];\<close>.
\<close>

datatype 'v cstmt =
    Assign "'v cvar" "'v cexpr"
  | AddAssign "'v cvar" "'v cexpr"
  | DeclRef string 'v "'v cexpr"
  | AssignArr string nat "'v cexpr"
  | If "'v cexpr" "'v cstmt list" "'v cstmt list"
  | PyErr_SetString string
  | PyErr_Format string "'v cexpr list"
  | Fail_code 'v
  | Task string
  | ForUp "'v cexpr option" nat "'v cexpr" "'v cstmt list"
  | ForDown nat "'v cexpr" "'v cstmt list"
  | Block "'v cstmt list"
  | DeclLoops 'v nat
  | SetFirst 'v "'v cexpr"
  | SetSecond 'v nat
  | IncrIt 'v
  | SortLoops 'v
  | ResetIt 'v
  | DeclArr string nat
  | DeclTotal nat string 'v
  | DeclInitStrides nat nat "'v cexpr list"
  | DeclRit 'v
  | ResetRit 'v
  | IncrRit 'v
  | DeclStrideL 'v nat nat 'v

section \<open>make_declare\<close>

text \<open>
  The declarations of \<^verbatim>\<open>make_declare\<close>, each as the C type and the variable: a pointer
  \<^verbatim>\<open>{dtype}* {var}_iter\<close> for each operand and, for each position of its loop order,
  \<^verbatim>\<open>npy_intp {var}_n{value}\<close>, \<^verbatim>\<open>ssize_t {var}_stride{value}\<close> and
  \<^verbatim>\<open>int {var}_jump{value}_{j}\<close>, or \<^verbatim>\<open>int {var}_jumpx_{j}\<close> alone at an \<^verbatim>\<open>'x'\<close>.
\<close>

datatype ctype = C_int | Npy_intp | Ssize_t | Pointer string

fun declare_positions :: "string \<Rightarrow> (nat \<times> entry) list \<Rightarrow> (ctype \<times> string cvar) list" where
  "declare_positions var [] = []"
| "declare_positions var ((j, D value) # rest) =
     [(Npy_intp, N var value), (Ssize_t, Stride var value), (C_int, Jump var (D value) j)]
     @ declare_positions var rest"
| "declare_positions var ((j, X) # rest) =
     [(C_int, Jump var X j)] @ declare_positions var rest"

fun declare_operands ::
  "subst \<Rightarrow> (nat \<times> entry list \<times> string) list \<Rightarrow> py_error + (ctype \<times> string cvar) list" where
  "declare_operands sub [] = Inr []"
| "declare_operands sub ((i, loop_order, dtype) # rest) =
     bind_py (lookup sub (Lv i)) (\<lambda>var.
     bind_py (declare_operands sub rest) (\<lambda>decl.
       Inr ([(Pointer dtype, IterP var)]
            @ declare_positions var (enumerate 0 loop_order)
            @ decl)))"

definition make_declare ::
  "entry list list \<Rightarrow> string list \<Rightarrow> subst \<Rightarrow> py_error + (ctype \<times> string cvar) list" where
  "make_declare loop_orders dtypes sub =
     declare_operands sub (enumerate 0 (zip loop_orders dtypes))"

section \<open>compute_output_dims_lengths\<close>

text \<open>
  The inner loop of \<^verbatim>\<open>compute_output_dims_lengths\<close>: the first candidate that is not
  \<^verbatim>\<open>'x'\<close>, with its position, where the loop breaks; \<open>None\<close> is the \<^verbatim>\<open>else\<close> of the
  \<^verbatim>\<open>for\<close>.
\<close>

fun first_nonx :: "(nat \<times> entry) list \<Rightarrow> (nat \<times> nat) option" where
  "first_nonx [] = None"
| "first_nonx ((j, D candidate) # rest) = Some (j, candidate)"
| "first_nonx ((j, X) # rest) = first_nonx rest"

fun dims_c_code :: "string \<Rightarrow> subst \<Rightarrow> (nat \<times> entry list) list \<Rightarrow> py_error + string cstmt list" where
  "dims_c_code array_name sub [] = Inr []"
| "dims_c_code array_name sub ((i, candidates) # rest) =
     (case first_nonx (enumerate 0 candidates) of
        Some (j, candidate) \<Rightarrow>
          bind_py (lookup sub (Lv j)) (\<lambda>var.
          bind_py (dims_c_code array_name sub rest) (\<lambda>code.
            Inr (AssignArr array_name i (V (N var candidate)) # code)))
      | None \<Rightarrow>
          bind_py (dims_c_code array_name sub rest) (\<lambda>code.
            Inr (AssignArr array_name i (Lit 1) # code)))"

definition compute_output_dims_lengths ::
  "string \<Rightarrow> entry list list \<Rightarrow> subst \<Rightarrow> py_error + string cstmt list" where
  "compute_output_dims_lengths array_name loop_orders sub =
     dims_c_code array_name sub (enumerate 0 (zip_star loop_orders))"

section \<open>make_checks\<close>

text \<open>
  The operator \<^verbatim>\<open>% sub\<close> on a template: every \<^verbatim>\<open>%(key)s\<close> is replaced by the text
  \<^verbatim>\<open>sub\<close> has for the key, and a key that \<^verbatim>\<open>sub\<close> does not have raises
  \<^verbatim>\<open>KeyError\<close>. (The escape \<^verbatim>\<open>%%\<close> of the templates is written \<^verbatim>\<open>%\<close> in the
  messages below, as it is after the substitution.)
\<close>

definition percent :: "key cstmt list \<Rightarrow> subst \<Rightarrow> py_error + string cstmt list" where
  "percent template sub =
     (if \<forall>c \<in> set template. \<forall>k \<in> set_cstmt c. sub k \<noteq> None
      then Inr (map (map_cstmt (\<lambda>k. the (sub k))) template)
      else Inl KeyError)"

definition nonx :: "entry list \<Rightarrow> nat list" where
  "nonx loop_order = concat (map (\<lambda>x. case x of X \<Rightarrow> [] | D d \<Rightarrow> [d]) loop_order)"

definition not_enough_dims_msg :: string where
  "not_enough_dims_msg = ''Not enough dimensions on input.''"

definition runtime_broadcast_error_msg :: string where
  "runtime_broadcast_error_msg =
     ''Runtime broadcasting not allowed. '' @
     ''One input had a distinct dimension length of 1, but was not marked as broadcastable: '' @
     ''(input[%i].shape[%i] = %lld, input[%i].shape[%i] = %lld). '' @
     ''If broadcasting was intended, use `specify_broadcastable` on the relevant input.''"

definition dimension_mismatch_msg :: string where
  "dimension_mismatch_msg =
     ''Input dimension mismatch: (input[%i].shape[%i] = %lld, input[%i].shape[%i] = %lld)''"

text \<open>
  The rank check of an operand, emitted when \<^verbatim>\<open>nonx\<close> is not empty.
\<close>

definition rank_check :: "'v \<Rightarrow> nat \<Rightarrow> 'v \<Rightarrow> 'v cstmt" where
  "rank_check var min_nd fail =
     If (Lt (PyArray_NDIM var) (Lit (int min_nd)))
        [PyErr_SetString not_enough_dims_msg, Fail_code fail] []"

text \<open>
  The loop \<^verbatim>\<open>for j, index in reversed(list(enumerate(loop_order)))\<close>, with the C
  expression \<^verbatim>\<open>adjust\<close> that it carries from one position to the next.
\<close>

fun jump_init :: "'v \<Rightarrow> string \<Rightarrow> (nat \<times> entry) list \<Rightarrow> 'v cexpr \<Rightarrow> 'v cstmt list" where
  "jump_init var dtype [] adjust = []"
| "jump_init var dtype ((j, D index) # rest) adjust =
     [Assign (N var index) (PyArray_DIMS var index),
      Assign (Stride var index) (Strides_Div var index dtype),
      Assign (Jump var (D index) j) (Sub (V (Stride var index)) adjust)]
     @ jump_init var dtype rest (Mul (V (N var index)) (V (Stride var index)))"
| "jump_init var dtype ((j, X) # rest) adjust =
     [Assign (Jump var X j) (Neg adjust)]
     @ jump_init var dtype rest (Lit 0)"

text \<open>What one round of the loop over the operands adds to \<^verbatim>\<open>init\<close>.\<close>

definition operand_init :: "nat \<Rightarrow> entry list \<Rightarrow> string \<Rightarrow> key cstmt list" where
  "operand_init i loop_order dtype =
     (let var = Lv i in
      (if nonx loop_order \<noteq> []
       then [rank_check var (Max (set (nonx loop_order)) + 1) Fail_key]
       else [])
      @ jump_init var dtype (rev (enumerate 0 loop_order)) (Lit 0))"

definition checks_init :: "entry list list \<Rightarrow> string list \<Rightarrow> key cstmt list" where
  "checks_init loop_orders dtypes =
     concat (map (\<lambda>(i, loop_order, dtype). operand_init i loop_order dtype)
                 (enumerate 0 (zip loop_orders dtypes)))"

text \<open>
  The comparison of the lengths of operand \<open>j0\<close> (dimension \<open>x0\<close>) and operand \<open>j\<close>
  (dimension \<open>x\<close>), with its two error messages.
\<close>

definition dim_check :: "nat \<Rightarrow> nat \<Rightarrow> nat \<Rightarrow> nat \<Rightarrow> key cstmt" where
  "dim_check j0 x0 j x =
     If (Ne (V (N (Lv j0) x0)) (V (N (Lv j) x)))
        [If (Or (Eq (V (N (Lv j0) x0)) (Lit 1)) (Eq (V (N (Lv j) x)) (Lit 1)))
            [PyErr_Format runtime_broadcast_error_msg
               [Lit (int j0), Lit (int x0), V (N (Lv j0) x0),
                Lit (int j), Lit (int x), V (N (Lv j) x)]]
            [PyErr_Format dimension_mismatch_msg
               [Lit (int j0), Lit (int x0), V (N (Lv j0) x0),
                Lit (int j), Lit (int x), V (N (Lv j) x)]],
         Fail_code Fail_key]
        []"

definition to_compare :: "entry list \<Rightarrow> (nat \<times> nat) list" where
  "to_compare matches =
     concat (map (\<lambda>(j, x). case x of X \<Rightarrow> [] | D d \<Rightarrow> [(j, d)]) (enumerate 0 matches))"

text \<open>What one round of the loop \<^verbatim>\<open>for matches in zip(*loop_orders)\<close> adds to \<^verbatim>\<open>check\<close>.\<close>

definition column_checks :: "entry list \<Rightarrow> key cstmt list" where
  "column_checks matches =
     (if length (to_compare matches) < 2 then []
      else (case hd (to_compare matches) of (j0, x0) \<Rightarrow>
              map (\<lambda>(j, x). dim_check j0 x0 j x) (tl (to_compare matches))))"

definition checks_check :: "entry list list \<Rightarrow> key cstmt list" where
  "checks_check loop_orders = concat (map column_checks (zip_star loop_orders))"

definition make_checks :: "entry list list \<Rightarrow> string list \<Rightarrow> subst \<Rightarrow> py_error + string cstmt list" where
  "make_checks loop_orders dtypes sub =
     bind_py (percent (checks_init loop_orders dtypes) sub) (\<lambda>init.
     bind_py (percent (checks_check loop_orders) sub) (\<lambda>check.
       Inr (init @ check)))"

section \<open>make_loop\<close>

text \<open>
  The dictionary \<^verbatim>\<open>preloops\<close> maps a level to the code that sets the running
  pointers before the loop of that level; \<^verbatim>\<open>preloops.get(i, "")\<close> is \<open>get_code\<close>.
  An operand is registered at the position of its first entry that is not \<^verbatim>\<open>'x'\<close>, and
  at level 0 when it has none (the \<^verbatim>\<open>else\<close> of the \<^verbatim>\<open>for\<close>).
\<close>

definition get_code :: "(nat \<rightharpoonup> 'c list) \<Rightarrow> nat \<Rightarrow> 'c list" where
  "get_code preloops i = (case preloops i of None \<Rightarrow> [] | Some code \<Rightarrow> code)"

definition preloop_level :: "entry list \<Rightarrow> nat" where
  "preloop_level loop_order =
     (case first_nonx (enumerate 0 loop_order) of Some (j, index) \<Rightarrow> j | None \<Rightarrow> 0)"

fun make_preloops ::
  "subst \<Rightarrow> (nat \<times> entry list \<times> string) list \<Rightarrow> (nat \<rightharpoonup> string cstmt list) \<Rightarrow>
   py_error + (nat \<rightharpoonup> string cstmt list)" where
  "make_preloops sub [] preloops = Inr preloops"
| "make_preloops sub ((i, loop_order, dtype) # rest) preloops =
     bind_py (lookup sub (Lv i)) (\<lambda>var.
       make_preloops sub rest
         (preloops(preloop_level loop_order \<mapsto>
            get_code preloops (preloop_level loop_order)
            @ [Assign (IterP var) (PyArray_DATA var dtype)])))"

text \<open>
  The loop of \<^verbatim>\<open>loop_over\<close> over the operands at one level: it extends \<^verbatim>\<open>update\<close> by
  one line for each operand and overwrites \<^verbatim>\<open>suitable_n\<close> at each operand that is not
  broadcast there.
\<close>

fun loop_over_update ::
  "subst \<Rightarrow> string list \<Rightarrow> nat \<Rightarrow> (nat \<times> entry) list \<Rightarrow> string cstmt list \<times> string cexpr \<Rightarrow>
   py_error + string cstmt list \<times> string cexpr" where
  "loop_over_update sub dtypes i [] (update, suitable_n) = Inr (update, suitable_n)"
| "loop_over_update sub dtypes i ((j, index) # rest) (update, suitable_n) =
     bind_py (lookup sub (Lv j)) (\<lambda>var.
       if j < length dtypes
       then loop_over_update sub dtypes i rest
              (update @ [DeclRef (dtypes ! j) var
                           (Add (V (IterP var)) (Mul (V (ITER i)) (V (Jump var index i))))],
               case index of D d \<Rightarrow> V (N var d) | X \<Rightarrow> suitable_n)
       else Inl IndexError)"

text \<open>
  \<^verbatim>\<open>config.openmp_elemwise_minsize\<close> is read from the configuration of the package;
  it is the parameter \<open>openmp_elemwise_minsize\<close> here.
\<close>

definition loop_over ::
  "subst \<Rightarrow> string list \<Rightarrow> bool \<Rightarrow> int \<Rightarrow>
   string cstmt list \<Rightarrow> string cstmt list \<Rightarrow> entry list \<Rightarrow> nat \<Rightarrow> py_error + string cstmt list" where
  "loop_over sub dtypes openmp openmp_elemwise_minsize preloop code indices i =
     bind_py (loop_over_update sub dtypes i (enumerate 0 indices) ([], Lit 1))
       (\<lambda>(update, suitable_n).
          Inr (preloop @
               [ForUp (if openmp then Some (Ge suitable_n (Lit openmp_elemwise_minsize)) else None)
                      i suitable_n (update @ code)]))"

text \<open>
  \<^verbatim>\<open>loop_tasks\<close> is a list of pairs of strings followed by one string: the pairs are
  \<open>tasks\<close> and the last string is \<open>last_task\<close>, so \<^verbatim>\<open>len(loop_tasks) - 1\<close> is
  \<open>length tasks\<close>. The loop over the levels runs on the reversed list of the triples.
\<close>

fun nest_loops ::
  "subst \<Rightarrow> string list \<Rightarrow> bool \<Rightarrow> int \<Rightarrow> (nat \<rightharpoonup> string cstmt list) \<Rightarrow>
   (nat \<times> (string \<times> string) \<times> entry list) list \<Rightarrow> string cstmt list \<Rightarrow>
   py_error + string cstmt list" where
  "nest_loops sub dtypes openmp minsize preloops [] s = Inr s"
| "nest_loops sub dtypes openmp minsize preloops ((i, (pre_task, task), indices) # rest) s =
     bind_py (loop_over sub dtypes openmp minsize
                (get_code preloops i @ [Task pre_task]) (s @ [Task task]) indices i)
       (\<lambda>s'. nest_loops sub dtypes openmp minsize preloops rest s')"

definition make_loop ::
  "entry list list \<Rightarrow> string list \<Rightarrow> (string \<times> string) list \<times> string \<Rightarrow> subst \<Rightarrow> bool \<Rightarrow> int \<Rightarrow>
   py_error + string cstmt" where
  "make_loop loop_orders dtypes loop_tasks sub openmp openmp_elemwise_minsize =
     (case loop_tasks of (tasks, last_task) \<Rightarrow>
        bind_py (make_preloops sub (enumerate 0 (zip loop_orders dtypes)) Map.empty) (\<lambda>preloops.
        bind_py (nest_loops sub dtypes openmp openmp_elemwise_minsize preloops
                   (rev (zip [0..<length tasks] (zip tasks (zip_star loop_orders)))) [])
          (\<lambda>s. Inr (Block (s @ [Task last_task])))))"

section \<open>make_loop_careduce\<close>

fun loop_over_update_careduce ::
  "subst \<Rightarrow> nat \<Rightarrow> (nat \<times> entry) list \<Rightarrow> string cstmt list \<times> string cexpr \<Rightarrow>
   py_error + string cstmt list \<times> string cexpr" where
  "loop_over_update_careduce sub i [] (update, suitable_n) = Inr (update, suitable_n)"
| "loop_over_update_careduce sub i ((j, index) # rest) (update, suitable_n) =
     bind_py (lookup sub (Lv j)) (\<lambda>var.
       loop_over_update_careduce sub i rest
         (update @ [AddAssign (IterP var) (V (Jump var index i))],
          case index of D d \<Rightarrow> V (N var d) | X \<Rightarrow> suitable_n))"

definition loop_over_careduce ::
  "subst \<Rightarrow> string cstmt list \<Rightarrow> string cstmt list \<Rightarrow> entry list \<Rightarrow> nat \<Rightarrow>
   py_error + string cstmt list" where
  "loop_over_careduce sub preloop code indices i =
     bind_py (loop_over_update_careduce sub i (enumerate 0 indices) ([], Lit 1))
       (\<lambda>(update, suitable_n). Inr (preloop @ [ForDown i suitable_n (code @ update)]))"

fun nest_loops_careduce ::
  "subst \<Rightarrow> (nat \<rightharpoonup> string cstmt list) \<Rightarrow>
   (nat \<times> (string \<times> string) \<times> entry list) list \<Rightarrow> string cstmt list \<Rightarrow>
   py_error + string cstmt list" where
  "nest_loops_careduce sub preloops [] s = Inr s"
| "nest_loops_careduce sub preloops ((i, (pre_task, task), indices) # rest) s =
     bind_py (loop_over_careduce sub
                (get_code preloops i @ [Task pre_task]) (s @ [Task task]) indices i)
       (\<lambda>s'. nest_loops_careduce sub preloops rest s')"

definition make_loop_careduce ::
  "entry list list \<Rightarrow> string list \<Rightarrow> (string \<times> string) list \<times> string \<Rightarrow> subst \<Rightarrow>
   py_error + string cstmt" where
  "make_loop_careduce loop_orders dtypes loop_tasks sub =
     (case loop_tasks of (tasks, last_task) \<Rightarrow>
        bind_py (make_preloops sub (enumerate 0 (zip loop_orders dtypes)) Map.empty) (\<lambda>preloops.
        bind_py (if length tasks + 1 = 1 then Inr (get_code preloops 0)
                 else nest_loops_careduce sub preloops
                        (rev (zip [0..<length tasks] (zip tasks (zip_star loop_orders)))) [])
          (\<lambda>s. Inr (Block (s @ [Task last_task])))))"

section \<open>make_reordered_loop\<close>

text \<open>
  The function builds its result from the pieces \<^verbatim>\<open>order_loops\<close>,
  \<^verbatim>\<open>declare_totals\<close>, \<^verbatim>\<open>declare_strides\<close>, \<^verbatim>\<open>declare_iter\<close> and \<^verbatim>\<open>loop\<close>, in
  this order. The first is \<^verbatim>\<open>order_loops\<close>, which fills and sorts the vector of pairs
  of the reference operand; it is the beginning of the function, with the errors Python
  raises there. The index \<^verbatim>\<open>olv_index\<close> is a position in \<^verbatim>\<open>init_loop_orders\<close>.
\<close>

definition order_loops :: "entry list list \<Rightarrow> nat \<Rightarrow> subst \<Rightarrow> py_error + string cstmt list" where
  "order_loops init_loop_orders olv_index sub =
     (if init_loop_orders = [] then Inl IndexError
      else
        (let nnested = length (init_loop_orders ! 0) in
         bind_py (lookup sub (Lv olv_index)) (\<lambda>ovar.
           if olv_index < length init_loop_orders
           then Inr ([DeclLoops ovar nnested]
                     @ concat (map (\<lambda>(i, index).
                                 [SetFirst ovar (case index of D d \<Rightarrow> Abs_Strides ovar d | X \<Rightarrow> Lit 0),
                                  SetSecond ovar i,
                                  IncrIt ovar])
                               (enumerate 0 (init_loop_orders ! olv_index)))
                     @ [SortLoops ovar])
           else Inl IndexError)))"

text \<open>
  \<^verbatim>\<open>declare_totals\<close>: the lengths of the levels in the order of the loop orders, then one
  variable \<^verbatim>\<open>TOTAL_i\<close> for each level, read through the iterator of the sorted vector.
\<close>

definition declare_totals ::
  "entry list list \<Rightarrow> subst \<Rightarrow> string \<Rightarrow> nat \<Rightarrow> py_error + string cstmt list" where
  "declare_totals init_loop_orders sub ovar nnested =
     bind_py (compute_output_dims_lengths ''init_totals'' init_loop_orders sub) (\<lambda>dims_c_code.
       Inr ([DeclArr ''init_totals'' nnested]
            @ dims_c_code
            @ [ResetIt ovar]
            @ concat (map (\<lambda>i. [DeclTotal i ''init_totals'' ovar, IncrIt ovar]) [0..<nnested])))"

text \<open>
  \<^verbatim>\<open>get_loop_strides\<close>, and the initialisers of \<^verbatim>\<open>init_strides\<close>: the rows of the loop
  orders that are not empty, joined into one list.
\<close>

definition get_loop_strides :: "subst \<Rightarrow> entry list \<Rightarrow> nat \<Rightarrow> py_error + string cexpr list" where
  "get_loop_strides sub loop_order i =
     bind_py (lookup sub (Lv i)) (\<lambda>var.
       Inr (map (\<lambda>index. case index of D d \<Rightarrow> V (Stride var d) | X \<Rightarrow> Lit 0) loop_order))"

fun init_strides_rows :: "subst \<Rightarrow> (nat \<times> entry list) list \<Rightarrow> py_error + string cexpr list" where
  "init_strides_rows sub [] = Inr []"
| "init_strides_rows sub ((i, lo) # rest) =
     (if length lo > 0
      then bind_py (get_loop_strides sub lo i) (\<lambda>row.
           bind_py (init_strides_rows sub rest) (\<lambda>rows. Inr (row @ rows)))
      else init_strides_rows sub rest)"

text \<open>
  The loop \<^verbatim>\<open>for i in range(nvars)\<close> of \<^verbatim>\<open>declare_strides\<close>: for each operand the
  reverse iterator starts at the last pair of the vector, and the levels are visited from
  the last to the first.
\<close>

fun declare_stride_ls :: "subst \<Rightarrow> string \<Rightarrow> nat \<Rightarrow> nat list \<Rightarrow> py_error + string cstmt list" where
  "declare_stride_ls sub ovar nnested [] = Inr []"
| "declare_stride_ls sub ovar nnested (i # rest) =
     bind_py (lookup sub (Lv i)) (\<lambda>var.
     bind_py (declare_stride_ls sub ovar nnested rest) (\<lambda>code.
       Inr ([ResetRit ovar]
            @ concat (map (\<lambda>j. [DeclStrideL var j i ovar, IncrRit ovar]) (rev [0..<nnested]))
            @ code)))"

definition declare_strides ::
  "entry list list \<Rightarrow> subst \<Rightarrow> string \<Rightarrow> nat \<Rightarrow> py_error + string cstmt list" where
  "declare_strides init_loop_orders sub ovar nnested =
     bind_py (init_strides_rows sub (enumerate 0 init_loop_orders)) (\<lambda>strides.
     bind_py (declare_stride_ls sub ovar nnested [0..<length init_loop_orders]) (\<lambda>code.
       Inr ([DeclInitStrides (length init_loop_orders) nnested strides, DeclRit ovar] @ code)))"

fun declare_iter :: "subst \<Rightarrow> (nat \<times> string) list \<Rightarrow> py_error + string cstmt list" where
  "declare_iter sub [] = Inr []"
| "declare_iter sub ((i, dtype) # rest) =
     bind_py (lookup sub (Lv i)) (\<lambda>var.
     bind_py (declare_iter sub rest) (\<lambda>code.
       Inr (Assign (IterP var) (PyArray_DATA var dtype) # code)))"

text \<open>
  The loop that builds \<^verbatim>\<open>loop\<close> from \<^verbatim>\<open>inner_task\<close>, for the levels
  \<^verbatim>\<open>reversed(range(nnested))\<close>; the text \<^verbatim>\<open>pointer_update\<close>, built before from
  \<^verbatim>\<open>dtypes\<close> and \<^verbatim>\<open>sub\<close>, is a parameter.
\<close>

fun reordered_loop ::
  "nat \<Rightarrow> bool \<Rightarrow> int \<Rightarrow> string cstmt list \<Rightarrow> nat list \<Rightarrow> string cstmt list \<Rightarrow> string cstmt list" where
  "reordered_loop nnested openmp openmp_elemwise_minsize pointer_update [] loop = loop"
| "reordered_loop nnested openmp openmp_elemwise_minsize pointer_update (i # rest) loop =
     reordered_loop nnested openmp openmp_elemwise_minsize pointer_update rest
       [ForUp (if i = 0 \<and> openmp
               then Some (Ge (V (TOTAL i)) (Lit openmp_elemwise_minsize)) else None)
              i (V (TOTAL i))
              ((if i = nnested - 1 then pointer_update else []) @ loop)]"

definition reordered_loop_nest ::
  "nat \<Rightarrow> bool \<Rightarrow> int \<Rightarrow> string cstmt list \<Rightarrow> string \<Rightarrow> string cstmt list" where
  "reordered_loop_nest nnested openmp openmp_elemwise_minsize pointer_update inner_task =
     reordered_loop nnested openmp openmp_elemwise_minsize pointer_update
       (rev [0..<nnested]) [Task inner_task]"

fun pointer_update :: "subst \<Rightarrow> nat \<Rightarrow> (nat \<times> string) list \<Rightarrow> py_error + string cstmt list" where
  "pointer_update sub nnested [] = Inr []"
| "pointer_update sub nnested ((j, dtype) # rest) =
     bind_py (lookup sub (Lv j)) (\<lambda>var.
     bind_py (pointer_update sub nnested rest) (\<lambda>code.
       Inr (DeclRef dtype var
              (foldl (\<lambda>e i. Add e (Mul (V (StrideL var i)) (V (ITER i))))
                     (V (IterP var)) (rev [0..<nnested]))
            # code)))"

text \<open>
  The declarations that come before the loops, and the whole result. (\<^verbatim>\<open>ovar\<close> is looked
  up once in Python; the second lookup here finds what \<open>order_loops\<close> found.)
\<close>

definition reordered_declarations ::
  "entry list list \<Rightarrow> nat \<Rightarrow> subst \<Rightarrow> py_error + string cstmt list" where
  "reordered_declarations init_loop_orders olv_index sub =
     bind_py (order_loops init_loop_orders olv_index sub) (\<lambda>order.
     bind_py (lookup sub (Lv olv_index)) (\<lambda>ovar.
     bind_py (declare_totals init_loop_orders sub ovar (length (init_loop_orders ! 0))) (\<lambda>totals.
     bind_py (declare_strides init_loop_orders sub ovar (length (init_loop_orders ! 0))) (\<lambda>strides.
       Inr (order @ totals @ strides)))))"

definition make_reordered_loop ::
  "entry list list \<Rightarrow> nat \<Rightarrow> string list \<Rightarrow> string \<Rightarrow> subst \<Rightarrow> bool \<Rightarrow> int \<Rightarrow>
   py_error + string cstmt" where
  "make_reordered_loop init_loop_orders olv_index dtypes inner_task sub openmp
     openmp_elemwise_minsize =
     bind_py (reordered_declarations init_loop_orders olv_index sub) (\<lambda>declarations.
     bind_py (declare_iter sub (enumerate 0 dtypes)) (\<lambda>iter.
     bind_py (pointer_update sub (length (init_loop_orders ! 0)) (enumerate 0 dtypes)) (\<lambda>update.
       Inr (Block (declarations @ iter
                   @ reordered_loop_nest (length (init_loop_orders ! 0)) openmp
                       openmp_elemwise_minsize update inner_task)))))"

section \<open>What the generated code computes\<close>

text \<open>
  The arrays are given by the caller and the generated code only reads them: the number
  of dimensions, the lengths, the strides in bytes (\<^verbatim>\<open>PyArray_STRIDES\<close>), the size of
  an element type in bytes (\<^verbatim>\<open>sizeof\<close>, a positive number) and the address of the data,
  which like every pointer counts elements.
\<close>

record 'v arrays =
  ndim :: "'v \<Rightarrow> int"
  dims :: "'v \<Rightarrow> nat \<Rightarrow> int"
  strides :: "'v \<Rightarrow> nat \<Rightarrow> int"
  sizeof :: "string \<Rightarrow> int"
  data :: "'v \<Rightarrow> string \<Rightarrow> int"

text \<open>
  The state of the generated function: the C variables, the local C arrays of one
  dimension with their declared sizes, the array \<^verbatim>\<open>init_strides\<close> with its two declared
  sizes, the Python exception that has been set (its message and the values of its
  arguments), the vector of pairs of each operand with its iterator and its reverse
  iterator (the distance from the last pair), and the record of the tasks that ran.
\<close>

record 'v cstate =
  store :: "'v cvar \<Rightarrow> int"
  c_arrays :: "string \<Rightarrow> nat \<Rightarrow> int"
  c_array_size :: "string \<Rightarrow> nat"
  init_strides :: "nat \<Rightarrow> nat \<Rightarrow> int"
  init_strides_size :: "nat \<times> nat"
  py_exception :: "(string \<times> int list) option"
  loops :: "'v \<Rightarrow> (int \<times> int) list"
  loops_it :: "'v \<Rightarrow> nat"
  loops_rit :: "'v \<Rightarrow> nat"
  trace :: "(string \<times> int list) list"

text \<open>
  The code stops either at \<^verbatim>\<open>%(fail)s\<close>, with the exception that is set, or at an access
  through an iterator that is past the end of its vector or at an index that is outside a
  declared array. An array declaration with more initialisers than elements is not C.
\<close>

datatype stop = Failed "(string \<times> int list) option" | Out_of_bounds | Not_compiled

text \<open>
  The value of an expression. The arithmetic operations wrap around in the width of their
  type. The quotient \<^verbatim>\<open>PyArray_STRIDES(..)[..] / sizeof(..)\<close> has an operand of the
  unsigned type \<^verbatim>\<open>size_t\<close>, so the stride is converted to 64 bits without sign before the
  division. \<^verbatim>\<open>abs\<close> is applied to the stride as it is, a \<^verbatim>\<open>npy_intp\<close> (the generated
  code is C++, where \<^verbatim>\<open>abs\<close> has a version for the integers of 64 bits); its result is
  converted to \<^verbatim>\<open>int\<close> when it is stored in a pair.
\<close>

fun eval :: "'v arrays \<Rightarrow> 'v cstate \<Rightarrow> 'v cexpr \<Rightarrow> int" where
  "eval A s (Lit n) = n"
| "eval A s (V v) = store s v"
| "eval A s (PyArray_NDIM var) = ndim A var"
| "eval A s (PyArray_DIMS var index) = dims A var index"
| "eval A s (Strides_Div var index dtype) = (strides A var index mod 2 ^ 64) div sizeof A dtype"
| "eval A s (Abs_Strides var index) = \<bar>strides A var index\<bar>"
| "eval A s (PyArray_DATA var dtype) = data A var dtype"
| "eval A s (Neg a) = wrap (wide a) (- eval A s a)"
| "eval A s (Sub a b) = wrap (wide a \<or> wide b) (eval A s a - eval A s b)"
| "eval A s (Add a b) = wrap (wide a \<or> wide b) (eval A s a + eval A s b)"
| "eval A s (Mul a b) = wrap (wide a \<or> wide b) (eval A s a * eval A s b)"
| "eval A s (Lt a b) = (if eval A s a < eval A s b then 1 else 0)"
| "eval A s (Ge a b) = (if eval A s a \<ge> eval A s b then 1 else 0)"
| "eval A s (Eq a b) = (if eval A s a = eval A s b then 1 else 0)"
| "eval A s (Ne a b) = (if eval A s a \<noteq> eval A s b then 1 else 0)"
| "eval A s (Or a b) = (if eval A s a \<noteq> 0 \<or> eval A s b \<noteq> 0 then 1 else 0)"

text \<open>
  The loop counter of a \<^verbatim>\<open>for\<close> and the references declared in its body are local:
  when the loop is left they have the values they had before it.
\<close>

fun is_local :: "nat \<Rightarrow> 'v cvar \<Rightarrow> bool" where
  "is_local i (Elem var) = True"
| "is_local i (ITER k) = (k = i)"
| "is_local i v = False"

definition leave_loop :: "nat \<Rightarrow> 'v cstate \<Rightarrow> 'v cstate \<Rightarrow> 'v cstate" where
  "leave_loop i before after =
     after\<lparr>store := (\<lambda>v. if is_local i v then store before v else store after v)\<rparr>"

text \<open>
  The execution of a statement. A value that is stored in a variable is converted to the
  type of the variable, and a value that is stored in a pair of the vector, in
  \<^verbatim>\<open>init_strides\<close> or in \<^verbatim>\<open>TOTAL_i\<close> to \<^verbatim>\<open>int\<close>. (The element type of a local array of
  one dimension is \<^verbatim>\<open>npy_intp\<close> in \<^verbatim>\<open>make_alloc\<close> and \<^verbatim>\<open>int\<close> in
  \<^verbatim>\<open>make_reordered_loop\<close>; a value is stored in it as it is and converted when it is
  read into an \<^verbatim>\<open>int\<close>, which gives the same \<^verbatim>\<open>int\<close>.)

  A task of the caller is recorded with the values that the watched variables \<open>w\<close> have
  when it runs. The bound of a loop is read when the loop is entered (the generated bodies
  assign neither the bound nor the counter): the body of \<open>ForUp\<close> runs for the counter
  values \<open>0, ..., n - 1\<close> and the body of \<open>ForDown\<close> for \<open>n, ..., 1\<close>. The bounds are
  lengths of arrays, which are not negative; a negative bound gives no iteration here.
\<close>

fun exec :: "'v arrays \<Rightarrow> 'v cvar list \<Rightarrow> 'v cstmt \<Rightarrow> 'v cstate \<Rightarrow> stop + 'v cstate"
  and exec_list :: "'v arrays \<Rightarrow> 'v cvar list \<Rightarrow> 'v cstmt list \<Rightarrow> 'v cstate \<Rightarrow> stop + 'v cstate"
  and exec_for :: "'v arrays \<Rightarrow> 'v cvar list \<Rightarrow> 'v cstmt list \<Rightarrow> nat \<Rightarrow> int list \<Rightarrow> 'v cstate \<Rightarrow> stop + 'v cstate"
where
  "exec A w (Assign v e) s = Inr (s\<lparr>store := (store s)(v := wrap (wide_var v) (eval A s e))\<rparr>)"
| "exec A w (AddAssign v e) s =
     Inr (s\<lparr>store := (store s)(v := wrap (wide_var v) (store s v + eval A s e))\<rparr>)"
| "exec A w (DeclRef dtype var e) s = Inr (s\<lparr>store := (store s)(Elem var := wrap64 (eval A s e))\<rparr>)"
| "exec A w (AssignArr a i e) s =
     Inr (s\<lparr>c_arrays := (c_arrays s)(a := (c_arrays s a)(i := eval A s e))\<rparr>)"
| "exec A w (If b t e) s = (if eval A s b \<noteq> 0 then exec_list A w t s else exec_list A w e s)"
| "exec A w (PyErr_SetString m) s = Inr (s\<lparr>py_exception := Some (m, [])\<rparr>)"
| "exec A w (PyErr_Format m es) s = Inr (s\<lparr>py_exception := Some (m, map (eval A s) es)\<rparr>)"
| "exec A w (Fail_code f) s = Inl (Failed (py_exception s))"
| "exec A w (Task t) s = Inr (s\<lparr>trace := trace s @ [(t, map (store s) w)]\<rparr>)"
| "exec A w (ForUp p i n body) s =
     (case exec_for A w body i (map int [0..<nat (eval A s n)]) s of
        Inl stop \<Rightarrow> Inl stop
      | Inr s' \<Rightarrow> Inr (leave_loop i s s'))"
| "exec A w (ForDown i n body) s =
     (case exec_for A w body i (rev (map int [1..<Suc (nat (eval A s n))])) s of
        Inl stop \<Rightarrow> Inl stop
      | Inr s' \<Rightarrow> Inr (leave_loop i s s'))"
| "exec A w (Block body) s = exec_list A w body s"
| "exec A w (DeclLoops var n) s =
     Inr (s\<lparr>loops := (loops s)(var := replicate n (0, 0)), loops_it := (loops_it s)(var := 0)\<rparr>)"
| "exec A w (SetFirst var e) s =
     (if loops_it s var < length (loops s var)
      then Inr (s\<lparr>loops := (loops s)(var :=
                  (loops s var)[loops_it s var :=
                     (wrap32 (eval A s e), snd (loops s var ! loops_it s var))])\<rparr>)
      else Inl Out_of_bounds)"
| "exec A w (SetSecond var i) s =
     (if loops_it s var < length (loops s var)
      then Inr (s\<lparr>loops := (loops s)(var :=
                  (loops s var)[loops_it s var :=
                     (fst (loops s var ! loops_it s var), wrap32 (int i))])\<rparr>)
      else Inl Out_of_bounds)"
| "exec A w (IncrIt var) s = Inr (s\<lparr>loops_it := (loops_it s)(var := Suc (loops_it s var))\<rparr>)"
| "exec A w (SortLoops var) s = Inr (s\<lparr>loops := (loops s)(var := rev (sort (loops s var)))\<rparr>)"
| "exec A w (ResetIt var) s = Inr (s\<lparr>loops_it := (loops_it s)(var := 0)\<rparr>)"
| "exec A w (DeclArr a n) s = Inr (s\<lparr>c_array_size := (c_array_size s)(a := n)\<rparr>)"
| "exec A w (DeclTotal i a var) s =
     (if loops_it s var < length (loops s var) \<and>
         0 \<le> snd (loops s var ! loops_it s var) \<and>
         nat (snd (loops s var ! loops_it s var)) < c_array_size s a
      then Inr (s\<lparr>store := (store s)(TOTAL i :=
                  wrap32 (c_arrays s a (nat (snd (loops s var ! loops_it s var)))))\<rparr>)
      else Inl Out_of_bounds)"
| "exec A w (DeclInitStrides nvars nnested es) s =
     (if length es \<le> nvars * nnested
      then Inr (s\<lparr>init_strides :=
                    (\<lambda>i k. if i < nvars \<and> k < nnested \<and> i * nnested + k < length es
                           then wrap32 (eval A s (es ! (i * nnested + k))) else 0),
                  init_strides_size := (nvars, nnested)\<rparr>)
      else Inl Not_compiled)"
| "exec A w (DeclRit var) s = Inr s"
| "exec A w (ResetRit var) s = Inr (s\<lparr>loops_rit := (loops_rit s)(var := 0)\<rparr>)"
| "exec A w (IncrRit var) s = Inr (s\<lparr>loops_rit := (loops_rit s)(var := Suc (loops_rit s var))\<rparr>)"
| "exec A w (DeclStrideL var j i ovar) s =
     (if loops_rit s ovar < length (loops s ovar) \<and>
         0 \<le> snd (loops s ovar ! (length (loops s ovar) - 1 - loops_rit s ovar)) \<and>
         i < fst (init_strides_size s) \<and>
         nat (snd (loops s ovar ! (length (loops s ovar) - 1 - loops_rit s ovar)))
           < snd (init_strides_size s)
      then Inr (s\<lparr>store := (store s)(StrideL var j :=
                  wrap32 (init_strides s i
                    (nat (snd (loops s ovar ! (length (loops s ovar) - 1 - loops_rit s ovar))))))\<rparr>)
      else Inl Out_of_bounds)"
| "exec_list A w [] s = Inr s"
| "exec_list A w (c # cs) s =
     (case exec A w c s of Inl stop \<Rightarrow> Inl stop | Inr s' \<Rightarrow> exec_list A w cs s')"
| "exec_for A w body i [] s = Inr s"
| "exec_for A w body i (k # ks) s =
     (case exec_list A w body (s\<lparr>store := (store s)(ITER i := wrap32 k)\<rparr>) of
        Inl stop \<Rightarrow> Inl stop
      | Inr s' \<Rightarrow> exec_for A w body i ks s')"

section \<open>Notions used in the proofs\<close>

text \<open>
  The values of the length and of the stride that \<^verbatim>\<open>make_checks\<close> stores for an operand,
  the value that \<^verbatim>\<open>adjust\<close> has after a loop-order entry has been processed, and the
  relation between the C expression \<^verbatim>\<open>adjust\<close>, the state in which it is read and its
  value.
\<close>

definition n_value :: "'v arrays \<Rightarrow> 'v \<Rightarrow> nat \<Rightarrow> int" where
  "n_value A var d = wrap64 (dims A var d)"

definition stride_value :: "'v arrays \<Rightarrow> 'v \<Rightarrow> string \<Rightarrow> nat \<Rightarrow> int" where
  "stride_value A var dtype d = wrap64 ((strides A var d mod 2 ^ 64) div sizeof A dtype)"

definition adjust_value :: "'v arrays \<Rightarrow> 'v \<Rightarrow> string \<Rightarrow> entry \<Rightarrow> int" where
  "adjust_value A var dtype e =
     (case e of D d \<Rightarrow> wrap64 (n_value A var d * stride_value A var dtype d) | X \<Rightarrow> 0)"

definition adjust_ok :: "'v arrays \<Rightarrow> 'v \<Rightarrow> string \<Rightarrow> 'v cstate \<Rightarrow> 'v cexpr \<Rightarrow> int \<Rightarrow> bool" where
  "adjust_ok A var dtype s adjust a \<longleftrightarrow>
     (adjust = Lit 0 \<and> a = 0) \<or>
     (\<exists>d. adjust = Mul (V (N var d)) (V (Stride var d)) \<and>
          store s (N var d) = n_value A var d \<and>
          store s (Stride var d) = stride_value A var dtype d \<and>
          a = wrap64 (n_value A var d * stride_value A var dtype d))"



text \<open>
  The loops of a piece of generated code, from the outside to the inside: the level and
  the bound of each.
\<close>

fun loop_bounds :: "'v cstmt \<Rightarrow> (nat \<times> 'v cexpr) list"
  and loop_bounds_list :: "'v cstmt list \<Rightarrow> (nat \<times> 'v cexpr) list" where
  "loop_bounds (ForUp p i n body) = (i, n) # loop_bounds_list body"
| "loop_bounds (ForDown i n body) = (i, n) # loop_bounds_list body"
| "loop_bounds (If b t e) = loop_bounds_list t @ loop_bounds_list e"
| "loop_bounds (Block body) = loop_bounds_list body"
| "loop_bounds (Assign v e) = []"
| "loop_bounds (AddAssign v e) = []"
| "loop_bounds (DeclRef dtype var e) = []"
| "loop_bounds (AssignArr a i e) = []"
| "loop_bounds (PyErr_SetString m) = []"
| "loop_bounds (PyErr_Format m es) = []"
| "loop_bounds (Fail_code f) = []"
| "loop_bounds (Task t) = []"
| "loop_bounds (DeclLoops var n) = []"
| "loop_bounds (SetFirst var e) = []"
| "loop_bounds (SetSecond var i) = []"
| "loop_bounds (IncrIt var) = []"
| "loop_bounds (SortLoops var) = []"
| "loop_bounds (ResetIt var) = []"
| "loop_bounds (DeclArr a n) = []"
| "loop_bounds (DeclTotal i a var) = []"
| "loop_bounds (DeclInitStrides nvars nnested es) = []"
| "loop_bounds (DeclRit var) = []"
| "loop_bounds (ResetRit var) = []"
| "loop_bounds (IncrRit var) = []"
| "loop_bounds (DeclStrideL var j i ovar) = []"
| "loop_bounds_list [] = []"
| "loop_bounds_list (c # cs) = loop_bounds c @ loop_bounds_list cs"

text \<open>The last entry of a column that is not \<^verbatim>\<open>'x'\<close>, with its position.\<close>

fun last_nonx :: "(nat \<times> entry) list \<Rightarrow> (nat \<times> nat) option" where
  "last_nonx [] = None"
| "last_nonx ((j, index) # rest) =
     (case last_nonx rest of
        Some p \<Rightarrow> Some p
      | None \<Rightarrow> (case index of D d \<Rightarrow> Some (j, d) | X \<Rightarrow> None))"

section \<open>Example inputs\<close>

text \<open>
  Three operands named \<^verbatim>\<open>a\<close>, \<^verbatim>\<open>b\<close> and \<^verbatim>\<open>c\<close>; arrays of two dimensions of length 2 whose
  strides are 16 and 8 bytes, 2 elements and 1 element of 8 bytes; a state in which every
  variable is 0 and nothing has been recorded.
\<close>

definition example_sub :: subst where
  "example_sub = [Lv 0 \<mapsto> ''a'', Lv 1 \<mapsto> ''b'', Lv 2 \<mapsto> ''c'', Fail_key \<mapsto> ''fail'']"

definition example_state :: "string cstate" where
  "example_state =
     \<lparr>store = (\<lambda>v. 0), c_arrays = (\<lambda>a i. 0), c_array_size = (\<lambda>a. 0),
      init_strides = (\<lambda>i k. 0), init_strides_size = (0, 0), py_exception = None,
      loops = (\<lambda>var. []), loops_it = (\<lambda>var. 0), loops_rit = (\<lambda>var. 0), trace = []\<rparr>"

definition example_arrays :: "string arrays" where
  "example_arrays =
     \<lparr>ndim = (\<lambda>var. 2), dims = (\<lambda>var index. 2),
      strides = (\<lambda>var index. if index = 0 then 16 else 8),
      sizeof = (\<lambda>dtype. 8),
      data = (\<lambda>var dtype. 0)\<rparr>"

section \<open>Basic facts\<close>


lemma wrap64_id: "- (2 ^ 63) \<le> x \<Longrightarrow> x < 2 ^ 63 \<Longrightarrow> wrap64 x = x"
  by (simp add: wrap64_def)

lemma wrap32_wrap64 [simp]: "wrap32 (wrap64 x) = wrap32 x"
proof -
  have "wrap64 x = x - 2 ^ 64 * ((x + 2 ^ 63) div 2 ^ 64)"
    by (simp add: wrap64_def minus_mult_div_eq_mod [symmetric])
  then have "wrap64 x + 2 ^ 31 = (x + 2 ^ 31) + 2 ^ 32 * (- (2 ^ 32 * ((x + 2 ^ 63) div 2 ^ 64)))"
    by simp
  then have "(wrap64 x + 2 ^ 31) mod 2 ^ 32 = (x + 2 ^ 31) mod 2 ^ 32"
    by (metis mod_mult_self2)
  then show ?thesis
    by (simp add: wrap32_def)
qed

lemma wrap32_wrap32 [simp]: "wrap32 (wrap32 x) = wrap32 x"
  by (simp add: wrap32_def)

lemma wrap64_wrap64 [simp]: "wrap64 (wrap64 x) = wrap64 x"
  by (simp add: wrap64_def)

lemma wrap32_0 [simp]: "wrap32 0 = 0" and wrap64_0 [simp]: "wrap64 0 = 0"
  by (simp_all add: wrap32_def wrap64_def)

lemma wrap32_range: "- (2 ^ 31) \<le> wrap32 x \<and> wrap32 x < 2 ^ 31"
  by (simp add: wrap32_def)

lemma bind_py_Inl [simp]: "bind_py (Inl e) f = Inl e"
  by (simp add: bind_py_def)

lemma bind_py_Inr [simp]: "bind_py (Inr x) f = f x"
  by (simp add: bind_py_def)

lemma bind_py_eq_Inr: "bind_py m f = Inr y \<longleftrightarrow> (\<exists>x. m = Inr x \<and> f x = Inr y)"
  by (cases m) simp_all

lemma lookup_eq_Inr [simp]: "lookup sub k = Inr v \<longleftrightarrow> sub k = Some v"
  by (simp add: lookup_def split: option.splits)

lemma declare_positions_widths:
  "(ty, v) \<in> set (declare_positions var ps) \<Longrightarrow> wide_var v \<longleftrightarrow> ty \<noteq> C_int"
  by (induction var ps rule: declare_positions.induct) auto

lemma make_declare_widths:
  assumes "make_declare loop_orders dtypes sub = Inr decl" and "(ty, v) \<in> set decl"
  shows "wide_var v \<longleftrightarrow> ty \<noteq> C_int"
proof -
  have "declare_operands sub ops = Inr decl \<Longrightarrow> (ty, v) \<in> set decl \<Longrightarrow>
        wide_var v \<longleftrightarrow> ty \<noteq> C_int" for ops
  proof (induction ops arbitrary: decl)
    case Nil
    then show ?case by simp
  next
    case (Cons op ops)
    obtain i loop_order dtype where op: "op = (i, loop_order, dtype)"
      by (cases op)
    from Cons.prems(1) obtain var rest where
      rest: "declare_operands sub ops = Inr rest"
      and decl: "decl = [(Pointer dtype, IterP var)]
                   @ declare_positions var (enumerate 0 loop_order) @ rest"
      unfolding op by (auto simp: bind_py_eq_Inr)
    from Cons.prems(2) consider "(ty, v) = (Pointer dtype, IterP var)"
      | "(ty, v) \<in> set (declare_positions var (enumerate 0 loop_order))"
      | "(ty, v) \<in> set rest"
      unfolding decl by auto
    then show ?case
    proof cases
      case 1
      then show ?thesis by auto
    next
      case 2
      then show ?thesis by (rule declare_positions_widths)
    next
      case 3
      then show ?thesis by (rule Cons.IH [OF rest])
    qed
  qed
  then show ?thesis
    using assms unfolding make_declare_def by blast
qed

lemma length_zip_star:
  "length (zip_star xss) = (if xss = [] then 0 else Min (set (map length xss)))"
  by (simp add: zip_star_def)

lemma zip_star_index:
  assumes "xss \<noteq> []" and "\<forall>xs \<in> set xss. i < length xs"
  shows "i < length (zip_star xss)" and "zip_star xss ! i = map (\<lambda>xs. xs ! i) xss"
proof -
  have "i < Min (set (map length xss))"
    using assms by (subst Min_gr_iff) auto
  then show "i < length (zip_star xss)" and "zip_star xss ! i = map (\<lambda>xs. xs ! i) xss"
    using assms(1) by (simp_all add: zip_star_def)
qed

lemma zip_star_Cons_eval:
  "zip_star (xs # xss) = map (\<lambda>i. map (\<lambda>ys. ys ! i) (xs # xss)) [0..<fold min (map length xss) (length xs)]"
proof -
  have "Min (set (map length (xs # xss))) = fold min (map length xss) (length xs)"
    by (simp only: list.map Min.set_eq_fold)
  then show ?thesis
    unfolding zip_star_def by simp
qed

lemma first_nonx_Some:
  "first_nonx (enumerate n col) = Some (j, d) \<longleftrightarrow>
     n \<le> j \<and> j - n < length col \<and> col ! (j - n) = D d \<and> (\<forall>k. k < j - n \<longrightarrow> col ! k = X)"
proof (induction col arbitrary: n)
  case Nil
  then show ?case by simp
next
  case (Cons e col)
  show ?case
  proof (cases e)
    case X
    have "first_nonx (enumerate n (e # col)) = first_nonx (enumerate (Suc n) col)"
      using X by simp
    also have "\<dots> = Some (j, d) \<longleftrightarrow>
      Suc n \<le> j \<and> j - Suc n < length col \<and> col ! (j - Suc n) = D d \<and> (\<forall>k. k < j - Suc n \<longrightarrow> col ! k = X)"
      by (rule Cons.IH)
    also have "\<dots> \<longleftrightarrow> n \<le> j \<and> j - n < length (e # col) \<and> (e # col) ! (j - n) = D d
                  \<and> (\<forall>k. k < j - n \<longrightarrow> (e # col) ! k = X)"
    proof (cases "j \<le> n")
      case True
      then show ?thesis using X by auto
    next
      case False
      then obtain m where m: "j - n = Suc m" "j - Suc n = m" "Suc n \<le> j" "n \<le> j"
        by (metis Suc_diff_Suc Suc_leI not_le less_imp_le_nat)
      show ?thesis
        unfolding m using m(3,4) X by (auto simp: nth_Cons less_Suc_eq_0_disj split: nat.splits)
    qed
    finally show ?thesis .
  next
    case (D d')
    then show ?thesis by (auto simp: nth_Cons split: nat.splits)
  qed
qed

lemma first_nonx_None:
  "first_nonx (enumerate n col) = None \<longleftrightarrow> (\<forall>k < length col. col ! k = X)"
proof (induction col arbitrary: n)
  case Nil
  then show ?case by simp
next
  case (Cons e col)
  then show ?case by (cases e) (auto simp: nth_Cons less_Suc_eq_0_disj split: nat.splits)
qed

lemma dims_c_code_exec:
  "dims_c_code a sub (enumerate k cols) = Inr code \<Longrightarrow>
   \<exists>s'. exec_list A w code s = Inr s' \<and> store s' = store s \<and>
     (\<forall>i. i < k \<longrightarrow> c_arrays s' a i = c_arrays s a i) \<and>
     (\<forall>i. i < length cols \<longrightarrow> c_arrays s' a (k + i) =
        (case first_nonx (enumerate 0 (cols ! i)) of
           None \<Rightarrow> 1
         | Some (j, d) \<Rightarrow> store s (N (the (sub (Lv j))) d)))"
proof (induction cols arbitrary: k code s)
  case Nil
  then show ?case by simp
next
  case (Cons col cols)
  let ?e = "case first_nonx (enumerate 0 col) of
              None \<Rightarrow> Lit 1 | Some (j, d) \<Rightarrow> V (N (the (sub (Lv j))) d)"
  from Cons.prems obtain rest where
    rest: "dims_c_code a sub (enumerate (Suc k) cols) = Inr rest"
    and code: "code = AssignArr a k ?e # rest"
    by (auto simp: bind_py_eq_Inr split: option.splits)
  let ?s1 = "s\<lparr>c_arrays := (c_arrays s)(a := (c_arrays s a)(k := eval A s ?e))\<rparr>"
  from Cons.IH [OF rest, of ?s1] obtain s' where
    ex: "exec_list A w rest ?s1 = Inr s'" and st: "store s' = store ?s1"
    and low: "\<forall>i. i < Suc k \<longrightarrow> c_arrays s' a i = c_arrays ?s1 a i"
    and high: "\<forall>i. i < length cols \<longrightarrow> c_arrays s' a (Suc k + i) =
        (case first_nonx (enumerate 0 (cols ! i)) of
           None \<Rightarrow> 1
         | Some (j, d) \<Rightarrow> store ?s1 (N (the (sub (Lv j))) d))"
    by blast
  have "exec_list A w code s = Inr s'"
    using ex code by simp
  moreover have "store s' = store s"
    using st by simp
  moreover have "\<forall>i. i < k \<longrightarrow> c_arrays s' a i = c_arrays s a i"
    using low by simp
  moreover have "\<forall>i. i < length (col # cols) \<longrightarrow> c_arrays s' a (k + i) =
        (case first_nonx (enumerate 0 ((col # cols) ! i)) of
           None \<Rightarrow> 1
         | Some (j, d) \<Rightarrow> store s (N (the (sub (Lv j))) d))"
  proof (intro allI impI)
    fix i assume i: "i < length (col # cols)"
    show "c_arrays s' a (k + i) =
        (case first_nonx (enumerate 0 ((col # cols) ! i)) of
           None \<Rightarrow> 1
         | Some (j, d) \<Rightarrow> store s (N (the (sub (Lv j))) d))"
    proof (cases i)
      case 0
      have "c_arrays s' a k = eval A s ?e"
        using low by simp
      then show ?thesis using 0 by (simp split: option.splits)
    next
      case (Suc m)
      then show ?thesis using high i by (simp split: option.splits)
    qed
  qed
  ultimately show ?case by blast
qed

text \<open>
  Claim C4. The code of \<^verbatim>\<open>compute_output_dims_lengths\<close> runs to its end, and then the
  array holds at each position \<open>i\<close> the value of the length variable \<^verbatim>\<open>{var}_n{d}\<close> of the
  first operand (in the order of the operands) whose loop order has a dimension index
  \<open>d\<close> at position \<open>i\<close>, and 1 when every operand has \<^verbatim>\<open>'x'\<close> there.
\<close>

theorem output_dims_first_concrete:
  assumes "compute_output_dims_lengths array_name loop_orders sub = Inr code"
    and "loop_orders \<noteq> []"
    and "\<forall>loop_order \<in> set loop_orders. i < length loop_order"
  shows "\<exists>s'. exec_list A w code s = Inr s' \<and>
     (\<forall>j d var. j < length loop_orders \<and> loop_orders ! j ! i = D d \<and>
        (\<forall>k<j. loop_orders ! k ! i = X) \<and> sub (Lv j) = Some var \<longrightarrow>
        c_arrays s' array_name i = store s (N var d)) \<and>
     ((\<forall>j<length loop_orders. loop_orders ! j ! i = X) \<longrightarrow> c_arrays s' array_name i = 1)"
proof -
  let ?cols = "zip_star loop_orders"
  have i: "i < length ?cols" and col: "?cols ! i = map (\<lambda>lo. lo ! i) loop_orders"
    using zip_star_index [OF assms(2,3)] by simp_all
  from dims_c_code_exec [of array_name sub 0 ?cols code A w s] assms(1)
  obtain s' where ex: "exec_list A w code s = Inr s'"
    and val: "\<forall>i. i < length ?cols \<longrightarrow> c_arrays s' array_name (0 + i) =
        (case first_nonx (enumerate 0 (?cols ! i)) of
           None \<Rightarrow> 1
         | Some (j, d) \<Rightarrow> store s (N (the (sub (Lv j))) d))"
    unfolding compute_output_dims_lengths_def by blast
  have v: "c_arrays s' array_name i =
        (case first_nonx (enumerate 0 (?cols ! i)) of
           None \<Rightarrow> 1
         | Some (j, d) \<Rightarrow> store s (N (the (sub (Lv j))) d))"
    using val i by simp
  have "c_arrays s' array_name i = store s (N var d)"
    if "j < length loop_orders" "loop_orders ! j ! i = D d"
       "\<forall>k<j. loop_orders ! k ! i = X" "sub (Lv j) = Some var" for j d var
  proof -
    have "first_nonx (enumerate 0 (?cols ! i)) = Some (j, d)"
      unfolding first_nonx_Some col using that by simp
    then show ?thesis using v that(4) by simp
  qed
  moreover have "c_arrays s' array_name i = 1" if "\<forall>j<length loop_orders. loop_orders ! j ! i = X"
  proof -
    have "first_nonx (enumerate 0 (?cols ! i)) = None"
      unfolding first_nonx_None col using that by simp
    then show ?thesis using v by simp
  qed
  ultimately show ?thesis using ex by blast
qed

theorem output_dims_first_concrete_witness:
  "compute_output_dims_lengths ''dims'' [[X, D 0], [D 1, D 0]] example_sub =
     Inr [AssignArr ''dims'' 0 (V (N ''b'' 1)), AssignArr ''dims'' 1 (V (N ''a'' 0))] \<and>
   (\<exists>s'. exec_list example_arrays []
           [AssignArr ''dims'' 0 (V (N ''b'' 1)), AssignArr ''dims'' 1 (V (N ''a'' 0))]
           example_state = Inr s' \<and>
         c_arrays s' ''dims'' 0 = store example_state (N ''b'' 1))"
proof -
  have c: "compute_output_dims_lengths ''dims'' [[X, D 0], [D 1, D 0]] example_sub =
     Inr [AssignArr ''dims'' 0 (V (N ''b'' 1)), AssignArr ''dims'' 1 (V (N ''a'' 0))]"
    by (simp add: compute_output_dims_lengths_def zip_star_Cons_eval enumerate_eq_zip
        example_sub_def lookup_def upt_rec)
  have n: "[[X, D 0], [D 1, D 0]] \<noteq> []"
    by simp
  have l: "\<forall>loop_order \<in> set [[X, D 0], [D 1, D 0]]. 0 < length loop_order"
    by simp
  show ?thesis
    using c output_dims_first_concrete [OF c n l, of example_arrays "[]" example_state]
    by (auto simp: example_sub_def)
qed

section \<open>The code of make_loop and make_loop_careduce\<close>

lemma make_preloops_get:
  "make_preloops sub ops preloops = Inr preloops' \<Longrightarrow>
   get_code preloops' k =
     get_code preloops k
     @ map (\<lambda>(i, lo, dtype). Assign (IterP (the (sub (Lv i)))) (PyArray_DATA (the (sub (Lv i))) dtype))
           (filter (\<lambda>(i, lo, dtype). preloop_level lo = k) ops)"
proof (induction ops arbitrary: preloops)
  case Nil
  then show ?case by simp
next
  case (Cons op ops)
  obtain i lo dtype where op: "op = (i, lo, dtype)"
    by (cases op) auto
  from Cons.prems obtain var where var: "sub (Lv i) = Some var"
    and rest: "make_preloops sub ops
       (preloops(preloop_level lo \<mapsto>
          get_code preloops (preloop_level lo) @ [Assign (IterP var) (PyArray_DATA var dtype)])) = Inr preloops'"
    by (auto simp: op bind_py_eq_Inr)
  show ?case
    using Cons.IH [OF rest] var by (simp add: op get_code_def)
qed

lemma preloop_level_0:
  "preloop_level lo = 0 \<longleftrightarrow> (\<forall>j<length lo. lo ! j = X) \<or> (\<exists>d. lo ! 0 = D d \<and> lo \<noteq> [])"
proof (cases "first_nonx (enumerate 0 lo)")
  case None
  then show ?thesis
    using first_nonx_None [of 0 lo] by (auto simp: preloop_level_def)
next
  case (Some p)
  obtain j d where p: "p = (j, d)" by (cases p) auto
  have "j < length lo" "lo ! j = D d" "\<forall>k<j. lo ! k = X"
    using Some first_nonx_Some [of 0 lo j d] by (simp_all add: p)
  then show ?thesis
    using Some by (cases "j = 0") (auto simp: preloop_level_def p)
qed

text \<open>
  Claim C10. When \<^verbatim>\<open>loop_tasks\<close> has one element only, the result of
  \<^verbatim>\<open>make_loop_careduce\<close> has no loop: it is the block that holds the pointer
  initialisations registered at level 0 (those of the operands, in their order, whose
  loop order has only \<^verbatim>\<open>'x'\<close> entries or starts with a dimension index) followed by that
  one task.
\<close>

theorem careduce_single_task:
  assumes "make_loop_careduce loop_orders dtypes ([], last_task) sub = Inr code"
  shows "code =
     Block (map (\<lambda>(i, lo, dtype). Assign (IterP (the (sub (Lv i)))) (PyArray_DATA (the (sub (Lv i))) dtype))
                (filter (\<lambda>(i, lo, dtype). (\<forall>j<length lo. lo ! j = X) \<or> (\<exists>d. lo ! 0 = D d \<and> lo \<noteq> []))
                        (enumerate 0 (zip loop_orders dtypes)))
            @ [Task last_task])"
proof -
  from assms obtain preloops where
    p: "make_preloops sub (enumerate 0 (zip loop_orders dtypes)) Map.empty = Inr preloops"
    and code: "code = Block (get_code preloops 0 @ [Task last_task])"
    by (auto simp: make_loop_careduce_def bind_py_eq_Inr)
  show ?thesis
    unfolding code make_preloops_get [OF p, of 0] preloop_level_0
    by (simp add: get_code_def)
qed

theorem careduce_single_task_witness:
  "make_loop_careduce [[], []] [''double'', ''float''] ([], ''T'') example_sub =
     Inr (Block [Assign (IterP ''a'') (PyArray_DATA ''a'' ''double''),
                 Assign (IterP ''b'') (PyArray_DATA ''b'' ''float''),
                 Task ''T''])"
proof -
  have "\<exists>code. make_loop_careduce [[], []] [''double'', ''float''] ([], ''T'') example_sub = Inr code"
    by (simp add: make_loop_careduce_def example_sub_def enumerate_eq_zip upt_rec lookup_def)
  then obtain code where c: "make_loop_careduce [[], []] [''double'', ''float''] ([], ''T'') example_sub = Inr code"
    by blast
  show ?thesis
    unfolding c using careduce_single_task [OF c]
    by (simp add: enumerate_eq_zip upt_rec example_sub_def)
qed

lemma loop_bounds_list_append [simp]:
  "loop_bounds_list (cs @ ds) = loop_bounds_list cs @ loop_bounds_list ds"
  by (induction cs) simp_all

lemma last_nonx_Some:
  "last_nonx (enumerate n col) = Some (j, d) \<longleftrightarrow>
     n \<le> j \<and> j - n < length col \<and> col ! (j - n) = D d \<and>
     (\<forall>k. j - n < k \<and> k < length col \<longrightarrow> col ! k = X)"
  and last_nonx_None:
  "last_nonx (enumerate n col) = None \<longleftrightarrow> (\<forall>k < length col. col ! k = X)"
proof (induction col arbitrary: n j d)
  case Nil
  { case 1 show ?case by simp }
  { case 2 show ?case by simp }
next
  case (Cons e col)
  { case 1
    show ?case
    proof (cases "last_nonx (enumerate (Suc n) col)")
      case None
      then have allx: "\<forall>k < length col. col ! k = X"
        using Cons.IH(2) by simp
      show ?thesis
      proof (cases "j = n")
        case True
        then show ?thesis using None allx by (cases e) (auto simp: nth_Cons split: nat.splits)
      next
        case False
        have "\<not> (n \<le> j \<and> j - n < length (e # col) \<and> (e # col) ! (j - n) = D d)"
        proof
          assume a: "n \<le> j \<and> j - n < length (e # col) \<and> (e # col) ! (j - n) = D d"
          then obtain m where m: "j - n = Suc m" using False by (cases "j - n") auto
          then show False using a allx by auto
        qed
        then show ?thesis using None False by (cases e) auto
      qed
    next
      case (Some p)
      obtain j' d' where p: "p = (j', d')" by (cases p) auto
      have IH: "Suc n \<le> j'" "j' - Suc n < length col" "col ! (j' - Suc n) = D d'"
        "\<forall>k. j' - Suc n < k \<and> k < length col \<longrightarrow> col ! k = X"
        using Some Cons.IH(1) [of "Suc n" j' d'] by (simp_all add: p)
      have j': "j' - n = Suc (j' - Suc n)"
        using IH(1) by simp
      show ?thesis
      proof
        assume "last_nonx (enumerate n (e # col)) = Some (j, d)"
        then have eq: "j = j'" "d = d'"
          using Some by (simp_all add: p)
        show "n \<le> j \<and> j - n < length (e # col) \<and> (e # col) ! (j - n) = D d \<and>
              (\<forall>k. j - n < k \<and> k < length (e # col) \<longrightarrow> (e # col) ! k = X)"
          unfolding eq j' using IH by (auto simp: nth_Cons split: nat.splits)
      next
        assume a: "n \<le> j \<and> j - n < length (e # col) \<and> (e # col) ! (j - n) = D d \<and>
              (\<forall>k. j - n < k \<and> k < length (e # col) \<longrightarrow> (e # col) ! k = X)"
        have "(e # col) ! (j' - n) = D d'" "j' - n < length (e # col)"
          unfolding j' using IH by simp_all
        then have le: "j' - n \<le> j - n"
          using a by (metis entry.distinct(1) not_le_imp_less)
        have "j - n \<le> j' - n"
        proof (rule ccontr)
          assume "\<not> j - n \<le> j' - n"
          then obtain m where m: "j - n = Suc m" "j' - Suc n < m"
            unfolding j' by (cases "j - n") auto
          then have "col ! m = X" "col ! m = D d"
            using IH(4) a by auto
          then show False by simp
        qed
        then have "j = j'"
          using le a IH(1) by auto
        moreover have "d = d'"
          using a \<open>(e # col) ! (j' - n) = D d'\<close> calculation by simp
        ultimately show "last_nonx (enumerate n (e # col)) = Some (j, d)"
          using Some by (simp add: p)
      qed
    qed }
  { case 2
    show ?case
      using Cons.IH(2) [of "Suc n"]
      by (cases e) (auto simp: nth_Cons less_Suc_eq_0_disj split: nat.splits option.splits) }
qed

lemma loop_over_update_result:
  "loop_over_update sub dtypes i (enumerate n indices) (update, suitable_n) = Inr (update', suitable_n') \<Longrightarrow>
   loop_bounds_list update' = loop_bounds_list update \<and>
   suitable_n' = (case last_nonx (enumerate n indices) of
                    None \<Rightarrow> suitable_n
                  | Some (j, d) \<Rightarrow> V (N (the (sub (Lv j))) d))"
proof (induction indices arbitrary: n update suitable_n)
  case Nil
  then show ?case by simp
next
  case (Cons e indices)
  from Cons.prems obtain var where var: "sub (Lv n) = Some var"
    and rest: "loop_over_update sub dtypes i (enumerate (Suc n) indices)
        (update @ [DeclRef (dtypes ! n) var
                     (Add (V (IterP var)) (Mul (V (ITER i)) (V (Jump var e i))))],
         case e of D d \<Rightarrow> V (N var d) | X \<Rightarrow> suitable_n) = Inr (update', suitable_n')"
    by (auto simp: bind_py_eq_Inr split: if_splits)
  show ?case
    using Cons.IH [OF rest] var by (cases e) (auto split: option.splits)
qed

lemma loop_over_bounds:
  assumes "loop_over sub dtypes openmp minsize preloop code indices i = Inr r"
  shows "loop_bounds_list r =
     loop_bounds_list preloop
     @ (i, case last_nonx (enumerate 0 indices) of
             None \<Rightarrow> Lit 1
           | Some (j, d) \<Rightarrow> V (N (the (sub (Lv j))) d))
       # loop_bounds_list code"
proof -
  from assms obtain update suitable_n where
    u: "loop_over_update sub dtypes i (enumerate 0 indices) ([], Lit 1) = Inr (update, suitable_n)"
    and r: "r = preloop @
               [ForUp (if openmp then Some (Ge suitable_n (Lit minsize)) else None)
                      i suitable_n (update @ code)]"
    by (auto simp: loop_over_def bind_py_eq_Inr)
  show ?thesis
    using loop_over_update_result [OF u] by (simp add: r)
qed

lemma nest_loops_bounds:
  assumes "nest_loops sub dtypes openmp minsize preloops xs s = Inr r"
    and "\<forall>k. loop_bounds_list (get_code preloops k) = []"
  shows "loop_bounds_list r =
     rev (map (\<lambda>(i, t, indices).
                 (i, case last_nonx (enumerate 0 indices) of
                       None \<Rightarrow> Lit 1
                     | Some (j, d) \<Rightarrow> V (N (the (sub (Lv j))) d))) xs)
     @ loop_bounds_list s"
  using assms(1)
proof (induction xs arbitrary: s)
  case Nil
  then show ?case by simp
next
  case (Cons x xs)
  obtain i pre_task task indices where x: "x = (i, (pre_task, task), indices)"
    by (cases x) auto
  from Cons.prems obtain s' where
    lo: "loop_over sub dtypes openmp minsize (get_code preloops i @ [Task pre_task])
           (s @ [Task task]) indices i = Inr s'"
    and rest: "nest_loops sub dtypes openmp minsize preloops xs s' = Inr r"
    by (auto simp: x bind_py_eq_Inr)
  show ?case
    using Cons.IH [OF rest] loop_over_bounds [OF lo] assms(2) by (simp add: x)
qed

lemma preloops_no_loops:
  assumes "make_preloops sub ops Map.empty = Inr preloops"
  shows "loop_bounds_list (get_code preloops k) = []"
proof -
  have "loop_bounds_list (map (\<lambda>(i, lo, dtype). Assign (f i) (g i dtype)) xs) = []"
    for f g and xs :: "(nat \<times> entry list \<times> string) list"
    by (induction xs) auto
  then show ?thesis
    unfolding make_preloops_get [OF assms, of k] by (simp add: get_code_def)
qed

text \<open>
  Claim C2, amended. In the result of \<^verbatim>\<open>make_loop\<close>, when every loop order has as
  many entries as there are pairs in \<^verbatim>\<open>loop_tasks\<close>, there is one loop for each level and
  the bound of the loop of level \<open>i\<close> is the length variable \<^verbatim>\<open>{var}_n{d}\<close> of the last
  operand (in the order of the operands) whose loop order has a dimension index \<open>d\<close> at
  position \<open>i\<close>, and the constant 1 when every operand has \<^verbatim>\<open>'x'\<close> there.
\<close>

theorem loop_bound_last_concrete:
  assumes "make_loop loop_orders dtypes (tasks, last_task) sub openmp minsize = Inr code"
    and "loop_orders \<noteq> []" and "\<forall>lo \<in> set loop_orders. length lo = length tasks"
    and "i < length tasks"
  shows "\<exists>bound. length (loop_bounds code) = length tasks \<and> loop_bounds code ! i = (i, bound) \<and>
     (\<forall>j d var. j < length loop_orders \<and> loop_orders ! j ! i = D d \<and>
        (\<forall>k. j < k \<and> k < length loop_orders \<longrightarrow> loop_orders ! k ! i = X) \<and>
        sub (Lv j) = Some var \<longrightarrow> bound = V (N var d)) \<and>
     ((\<forall>j<length loop_orders. loop_orders ! j ! i = X) \<longrightarrow> bound = Lit 1)"
proof -
  let ?cols = "zip_star loop_orders"
  let ?xs = "zip [0..<length tasks] (zip tasks ?cols)"
  let ?b = "\<lambda>indices. case last_nonx (enumerate 0 indices) of
                       None \<Rightarrow> Lit 1
                     | Some (j, d) \<Rightarrow> V (N (the (sub (Lv j))) d)"
  from assms(1) obtain preloops s where
    p: "make_preloops sub (enumerate 0 (zip loop_orders dtypes)) Map.empty = Inr preloops"
    and n: "nest_loops sub dtypes openmp minsize preloops (rev ?xs) [] = Inr s"
    and code: "code = Block (s @ [Task last_task])"
    by (auto simp: make_loop_def bind_py_eq_Inr)
  have bounds: "loop_bounds code = map (\<lambda>(i, t, indices). (i, ?b indices)) ?xs"
    using nest_loops_bounds [OF n] preloops_no_loops [OF p] by (simp add: code rev_map)
  have len: "length ?cols = length tasks"
  proof -
    obtain lo where "lo \<in> set loop_orders" using assms(2) by (cases loop_orders) auto
    then have "set (map length loop_orders) = {length tasks}"
      using assms(3) by auto
    then show ?thesis using assms(2) by (simp add: length_zip_star)
  qed
  have col: "?cols ! i = map (\<lambda>lo. lo ! i) loop_orders"
    using zip_star_index(2) [OF assms(2), of i] assms(3,4) by simp
  have 1: "length (loop_bounds code) = length tasks"
    by (simp add: bounds len)
  have 2: "loop_bounds code ! i = (i, ?b (?cols ! i))"
    using assms(4) len by (simp add: bounds)
  have 3: "?b (?cols ! i) = V (N var d)"
    if "j < length loop_orders" "loop_orders ! j ! i = D d"
       "\<forall>k. j < k \<and> k < length loop_orders \<longrightarrow> loop_orders ! k ! i = X" "sub (Lv j) = Some var"
    for j d var
  proof -
    have "last_nonx (enumerate 0 (?cols ! i)) = Some (j, d)"
      unfolding last_nonx_Some col using that by simp
    then show ?thesis using that(4) by simp
  qed
  have 4: "?b (?cols ! i) = Lit 1" if "\<forall>j<length loop_orders. loop_orders ! j ! i = X"
  proof -
    have "last_nonx (enumerate 0 (?cols ! i)) = None"
      unfolding last_nonx_None col using that by simp
    then show ?thesis by simp
  qed
  from 1 2 3 4 show ?thesis by blast
qed

theorem loop_bound_last_concrete_witness:
  "\<exists>code. make_loop [[D 0], [D 1]] [''double'', ''double''] ([([], [])], []) example_sub False 0 = Inr code \<and>
     loop_bounds code ! 0 = (0, V (N ''b'' 1))"
proof -
  let ?los = "[[D 0], [D 1]]"
  have "\<exists>code. make_loop ?los [''double'', ''double''] ([([], [])], []) example_sub False 0 = Inr code"
    by (simp add: make_loop_def loop_over_def zip_star_Cons_eval enumerate_eq_zip upt_rec
        example_sub_def lookup_def)
  then obtain code where
    c: "make_loop ?los [''double'', ''double''] ([([], [])], []) example_sub False 0 = Inr code"
    by blast
  have h: "?los \<noteq> []" "\<forall>lo \<in> set ?los. length lo = length [([] :: string, [] :: string)]"
    "0 < length [([] :: string, [] :: string)]"
    by simp_all
  from loop_bound_last_concrete [OF c h] obtain bound where
    b: "loop_bounds code ! 0 = (0, bound)"
    and last: "\<forall>j d var. j < length ?los \<and> ?los ! j ! 0 = D d \<and>
        (\<forall>k. j < k \<and> k < length ?los \<longrightarrow> ?los ! k ! 0 = X) \<and>
        example_sub (Lv j) = Some var \<longrightarrow> bound = V (N var d)"
    by blast
  have "bound = V (N ''b'' 1)"
    using last [rule_format, of 1 1 "''b''"] by (simp add: example_sub_def)
  then show ?thesis using b c by blast
qed

text \<open>
  Claim C2 as it is stated, with the first operand instead of the last, fails: for two
  operands that both have a dimension index at level 0 the bound of the loop is the length
  of the second one.
\<close>

theorem loop_bound_first_counterexample:
  "make_loop [[D 0], [D 1]] [''double'', ''double''] ([([], [])], []) example_sub False 0 =
     Inr (Block
       [Assign (IterP ''a'') (PyArray_DATA ''a'' ''double''),
        Assign (IterP ''b'') (PyArray_DATA ''b'' ''double''),
        Task [],
        ForUp None 0 (V (N ''b'' 1))
          [DeclRef ''double'' ''a'' (Add (V (IterP ''a'')) (Mul (V (ITER 0)) (V (Jump ''a'' (D 0) 0)))),
           DeclRef ''double'' ''b'' (Add (V (IterP ''b'')) (Mul (V (ITER 0)) (V (Jump ''b'' (D 1) 0)))),
           Task []],
        Task []]) \<and>
   V (N ''b'' 1) \<noteq> (V (N ''a'' 0) :: string cexpr)"
  by (simp add: make_loop_def loop_over_def zip_star_Cons_eval enumerate_eq_zip upt_rec
      example_sub_def lookup_def preloop_level_def get_code_def)

section \<open>The code of make_checks\<close>

lemma exec_list_append:
  "exec_list A w (cs @ ds) s =
     (case exec_list A w cs s of Inl stop \<Rightarrow> Inl stop | Inr s1 \<Rightarrow> exec_list A w ds s1)"
  by (induction cs arbitrary: s) (simp_all split: sum.splits)


lemma percent_Inr:
  "percent template sub = Inr code \<Longrightarrow> code = map (map_cstmt (\<lambda>k. the (sub k))) template"
  by (simp add: percent_def split: if_splits)

lemma make_checks_Inr:
  assumes "make_checks loop_orders dtypes sub = Inr code"
  shows "code = map (map_cstmt (\<lambda>k. the (sub k))) (checks_init loop_orders dtypes)
              @ map (map_cstmt (\<lambda>k. the (sub k))) (checks_check loop_orders)"
  using assms unfolding make_checks_def
  by (auto simp: bind_py_eq_Inr dest!: percent_Inr)

lemma map_jump_init:
  "map (map_cstmt r) (jump_init var dtype xs adjust) =
     jump_init (r var) dtype xs (map_cexpr r adjust)"
  by (induction var dtype xs adjust rule: jump_init.induct) simp_all

lemma map_operand_init:
  "map (map_cstmt r) (operand_init i loop_order dtype) =
     (if nonx loop_order \<noteq> []
      then [rank_check (r (Lv i)) (Max (set (nonx loop_order)) + 1) (r Fail_key)] else [])
     @ jump_init (r (Lv i)) dtype (rev (enumerate 0 loop_order)) (Lit 0)"
  by (simp add: operand_init_def rank_check_def map_jump_init Let_def)

lemma exec_rank_check:
  "exec A w (rank_check var min_nd fail) s =
     (if ndim A var < int min_nd then Inl (Failed (Some (not_enough_dims_msg, []))) else Inr s)"
  by (simp add: rank_check_def)

lemma jump_init_exec:
  assumes "adjust_ok A var dtype s adjust a"
  shows "\<exists>s'. exec_list A w (jump_init var dtype (rev (enumerate 0 lo)) adjust) s = Inr s' \<and>
     (\<forall>v. (\<forall>d. v \<noteq> N var d \<and> v \<noteq> Stride var d) \<and> (\<forall>e j. j < length lo \<longrightarrow> v \<noteq> Jump var e j)
          \<longrightarrow> store s' v = store s v) \<and>
     (\<forall>d. (store s (N var d) = n_value A var d \<longrightarrow> store s' (N var d) = n_value A var d) \<and>
          (store s (Stride var d) = stride_value A var dtype d \<longrightarrow>
             store s' (Stride var d) = stride_value A var dtype d)) \<and>
     (\<forall>j d. j < length lo \<and> lo ! j = D d \<longrightarrow>
          store s' (N var d) = n_value A var d \<and>
          store s' (Stride var d) = stride_value A var dtype d) \<and>
     (\<forall>j < length lo. store s' (Jump var (lo ! j) j) =
        wrap32 ((case lo ! j of D d \<Rightarrow> stride_value A var dtype d | X \<Rightarrow> 0)
                - (if Suc j < length lo then adjust_value A var dtype (lo ! Suc j) else a)))"
  using assms
proof (induction lo arbitrary: s adjust a rule: rev_induct)
  case Nil
  then show ?case by simp
next
  case (snoc e lo)
  let ?m = "length lo"
  let ?xs = "rev (enumerate 0 lo)"
  have unfold: "rev (enumerate 0 (lo @ [e])) = (?m, e) # ?xs"
    by (simp add: enumerate_append_eq)
  show ?case
  proof (cases e)
    case X
    let ?s1 = "s\<lparr>store := (store s)(Jump var X ?m := wrap32 (- a))\<rparr>"
    have step: "exec_list A w [Assign (Jump var X ?m) (Neg adjust)] s = Inr ?s1"
      using snoc.prems by (auto simp: adjust_ok_def wrap_def)
    have ok: "adjust_ok A var dtype ?s1 (Lit 0) 0"
      by (simp add: adjust_ok_def)
    from snoc.IH [OF ok] obtain s' where
      ex: "exec_list A w (jump_init var dtype ?xs (Lit 0)) ?s1 = Inr s'"
      and frame: "\<forall>v. (\<forall>d. v \<noteq> N var d \<and> v \<noteq> Stride var d) \<and> (\<forall>e j. j < ?m \<longrightarrow> v \<noteq> Jump var e j)
          \<longrightarrow> store s' v = store ?s1 v"
      and keep: "\<forall>d. (store ?s1 (N var d) = n_value A var d \<longrightarrow> store s' (N var d) = n_value A var d) \<and>
          (store ?s1 (Stride var d) = stride_value A var dtype d \<longrightarrow>
             store s' (Stride var d) = stride_value A var dtype d)"
      and set: "\<forall>j d. j < ?m \<and> lo ! j = D d \<longrightarrow>
          store s' (N var d) = n_value A var d \<and>
          store s' (Stride var d) = stride_value A var dtype d"
      and vals: "\<forall>j < ?m. store s' (Jump var (lo ! j) j) =
        wrap32 ((case lo ! j of D d \<Rightarrow> stride_value A var dtype d | X \<Rightarrow> 0)
                - (if Suc j < ?m then adjust_value A var dtype (lo ! Suc j) else 0))"
      by blast
    have code: "jump_init var dtype (rev (enumerate 0 (lo @ [e]))) adjust =
       [Assign (Jump var X ?m) (Neg adjust)] @ jump_init var dtype ?xs (Lit 0)"
      unfolding unfold using X by simp
    have 1: "exec_list A w (jump_init var dtype (rev (enumerate 0 (lo @ [e]))) adjust) s = Inr s'"
      unfolding code exec_list_append step using ex by simp
    have 2: "store s' v = store s v"
      if "\<forall>d. v \<noteq> N var d \<and> v \<noteq> Stride var d" "\<forall>e' j. j < length (lo @ [e]) \<longrightarrow> v \<noteq> Jump var e' j" for v
    proof -
      have "store s' v = store ?s1 v"
        using frame that by simp
      moreover have "v \<noteq> Jump var X ?m"
        using that(2) by simp
      ultimately show ?thesis by simp
    qed
    have 3: "(store s (N var d) = n_value A var d \<longrightarrow> store s' (N var d) = n_value A var d) \<and>
          (store s (Stride var d) = stride_value A var dtype d \<longrightarrow>
             store s' (Stride var d) = stride_value A var dtype d)" for d
      using keep [rule_format, of d] by simp
    have 4: "store s' (N var d) = n_value A var d \<and>
          store s' (Stride var d) = stride_value A var dtype d"
      if "j < length (lo @ [e])" "(lo @ [e]) ! j = D d" for j d
    proof -
      have "j < ?m"
        using that X by (cases "j = ?m") auto
      then show ?thesis
        using set that(2) by (simp add: nth_append)
    qed
    have 5: "store s' (Jump var ((lo @ [e]) ! j) j) =
        wrap32 ((case (lo @ [e]) ! j of D d \<Rightarrow> stride_value A var dtype d | X \<Rightarrow> 0)
        - (if Suc j < length (lo @ [e]) then adjust_value A var dtype ((lo @ [e]) ! Suc j) else a))"
      if "j < length (lo @ [e])" for j
    proof (cases "j < ?m")
      case True
      then show ?thesis
        using vals X by (auto simp: nth_append adjust_value_def less_Suc_eq)
    next
      case False
      then have j: "j = ?m" using that by simp
      have "store s' (Jump var X ?m) = store ?s1 (Jump var X ?m)"
        using frame by simp
      then show ?thesis
        using X by (simp add: j)
    qed
    from 1 2 3 4 5 show ?thesis by blast
  next
    case (D index)
    let ?n = "n_value A var index"
    let ?st = "stride_value A var dtype index"
    let ?s1 = "s\<lparr>store := (store s)(N var index := ?n, Stride var index := ?st,
                  Jump var (D index) ?m := wrap32 (?st - a))\<rparr>"
    let ?adj = "Mul (V (N var index)) (V (Stride var index))"
    have step: "exec_list A w
       [Assign (N var index) (PyArray_DIMS var index),
        Assign (Stride var index) (Strides_Div var index dtype),
        Assign (Jump var (D index) ?m) (Sub (V (Stride var index)) adjust)] s = Inr ?s1"
      using snoc.prems by (auto simp: adjust_ok_def wrap_def n_value_def stride_value_def)
    have ok: "adjust_ok A var dtype ?s1 ?adj (wrap64 (?n * ?st))"
      by (simp add: adjust_ok_def)
    from snoc.IH [OF ok] obtain s' where
      ex: "exec_list A w (jump_init var dtype ?xs ?adj) ?s1 = Inr s'"
      and frame: "\<forall>v. (\<forall>d. v \<noteq> N var d \<and> v \<noteq> Stride var d) \<and> (\<forall>e j. j < ?m \<longrightarrow> v \<noteq> Jump var e j)
          \<longrightarrow> store s' v = store ?s1 v"
      and keep: "\<forall>d. (store ?s1 (N var d) = n_value A var d \<longrightarrow> store s' (N var d) = n_value A var d) \<and>
          (store ?s1 (Stride var d) = stride_value A var dtype d \<longrightarrow>
             store s' (Stride var d) = stride_value A var dtype d)"
      and set: "\<forall>j d. j < ?m \<and> lo ! j = D d \<longrightarrow>
          store s' (N var d) = n_value A var d \<and>
          store s' (Stride var d) = stride_value A var dtype d"
      and vals: "\<forall>j < ?m. store s' (Jump var (lo ! j) j) =
        wrap32 ((case lo ! j of D d \<Rightarrow> stride_value A var dtype d | X \<Rightarrow> 0)
                - (if Suc j < ?m then adjust_value A var dtype (lo ! Suc j)
                   else wrap64 (?n * ?st)))"
      by blast
    have code: "jump_init var dtype (rev (enumerate 0 (lo @ [e]))) adjust =
       [Assign (N var index) (PyArray_DIMS var index),
        Assign (Stride var index) (Strides_Div var index dtype),
        Assign (Jump var (D index) ?m) (Sub (V (Stride var index)) adjust)]
       @ jump_init var dtype ?xs ?adj"
      unfolding unfold using D by simp
    have 1: "exec_list A w (jump_init var dtype (rev (enumerate 0 (lo @ [e]))) adjust) s = Inr s'"
      unfolding code exec_list_append step using ex by simp
    have 2: "store s' v = store s v"
      if "\<forall>d. v \<noteq> N var d \<and> v \<noteq> Stride var d" "\<forall>e' j. j < length (lo @ [e]) \<longrightarrow> v \<noteq> Jump var e' j" for v
    proof -
      have "store s' v = store ?s1 v"
        using frame that by simp
      moreover have "v \<noteq> Jump var (D index) ?m" "v \<noteq> N var index" "v \<noteq> Stride var index"
        using that by simp_all
      ultimately show ?thesis by simp
    qed
    have 3: "(store s (N var d) = n_value A var d \<longrightarrow> store s' (N var d) = n_value A var d) \<and>
          (store s (Stride var d) = stride_value A var dtype d \<longrightarrow>
             store s' (Stride var d) = stride_value A var dtype d)" for d
      using keep [rule_format, of d] by (cases "d = index") simp_all
    have here: "store s' (N var index) = ?n \<and> store s' (Stride var index) = ?st"
      using keep [rule_format, of index] by simp
    have 4: "store s' (N var d) = n_value A var d \<and>
          store s' (Stride var d) = stride_value A var dtype d"
      if "j < length (lo @ [e])" "(lo @ [e]) ! j = D d" for j d
    proof (cases "j < ?m")
      case True
      then show ?thesis
        using set that(2) by (simp add: nth_append)
    next
      case False
      then have "j = ?m" using that(1) by simp
      then have "d = index" using that(2) D by simp
      then show ?thesis using here by simp
    qed
    have 5: "store s' (Jump var ((lo @ [e]) ! j) j) =
        wrap32 ((case (lo @ [e]) ! j of D d \<Rightarrow> stride_value A var dtype d | X \<Rightarrow> 0)
        - (if Suc j < length (lo @ [e]) then adjust_value A var dtype ((lo @ [e]) ! Suc j) else a))"
      if "j < length (lo @ [e])" for j
    proof (cases "j < ?m")
      case True
      then show ?thesis
        using vals D by (auto simp: nth_append adjust_value_def less_Suc_eq)
    next
      case False
      then have j: "j = ?m" using that by simp
      have "store s' (Jump var (D index) ?m) = store ?s1 (Jump var (D index) ?m)"
        using frame by simp
      then show ?thesis
        using D by (simp add: j)
    qed
    from 1 2 3 4 5 show ?thesis by blast
  qed
qed






lemma exec_dim_check:
  "exec A w (map_cstmt r (dim_check j0 x0 j x)) s =
     (if store s (N (r (Lv j0)) x0) \<noteq> store s (N (r (Lv j)) x)
      then Inl (Failed (Some
             (if store s (N (r (Lv j0)) x0) = 1 \<or> store s (N (r (Lv j)) x) = 1
              then runtime_broadcast_error_msg else dimension_mismatch_msg,
              [int j0, int x0, store s (N (r (Lv j0)) x0), int j, int x, store s (N (r (Lv j)) x)])))
      else Inr s)"
  by (simp add: dim_check_def)

lemma column_checks_cases:
  assumes "c \<in> set (column_checks matches)"
  shows "\<exists>j0 x0 j x. c = dim_check j0 x0 j x"
  using assms by (auto simp: column_checks_def split: if_splits prod.splits)




lemma percent_keys:
  "percent template sub = Inr code \<Longrightarrow> c \<in> set template \<Longrightarrow> k \<in> set_cstmt c \<Longrightarrow> sub k \<noteq> None"
  by (auto simp: percent_def split: if_splits)

lemma jump_init_mentions_var:
  "xs \<noteq> [] \<Longrightarrow> \<exists>c \<in> set (jump_init var dtype xs adjust). var \<in> set_cstmt c"
proof (cases xs)
  case Nil
  then show "xs \<noteq> [] \<Longrightarrow> ?thesis" by simp
next
  case (Cons p rest)
  obtain j e where "p = (j, e)" by (cases p) auto
  then show ?thesis using Cons by (cases e) auto
qed

lemma operand_init_mentions_var:
  assumes "lo \<noteq> []"
  shows "\<exists>c \<in> set (operand_init i lo dtype). Lv i \<in> set_cstmt c"
proof -
  have "rev (enumerate 0 lo) \<noteq> []"
    using assms by (cases lo) simp_all
  from jump_init_mentions_var [OF this, of "Lv i" dtype "Lit 0"]
  show ?thesis by (auto simp: operand_init_def Let_def)
qed

lemma map_checks_init:
  "map (map_cstmt r) (checks_init loop_orders dtypes) =
     concat (map (\<lambda>(i, lo, dtype). map (map_cstmt r) (operand_init i lo dtype))
                 (enumerate 0 (zip loop_orders dtypes)))"
  by (simp add: checks_init_def map_concat comp_def split_def)





lemma set_nonx: "set (nonx lo) = {d. D d \<in> set lo}"
proof (induction lo)
  case Nil
  then show ?case by (simp add: nonx_def)
next
  case (Cons e lo)
  then show ?case by (cases e) (auto simp: nonx_def)
qed

lemma nonx_empty: "nonx lo = [] \<longleftrightarrow> (\<forall>d. D d \<notin> set lo)"
  using set_nonx [of lo] by (metis (mono_tags, lifting) empty_Collect_eq empty_iff mem_Collect_eq set_empty)

lemma operand_block_result:
  "exec_list A w (map (map_cstmt r) (operand_init i lo dtype)) s =
     Inl (Failed (Some (not_enough_dims_msg, []))) \<and>
     nonx lo \<noteq> [] \<and> ndim A (r (Lv i)) < 1 + int (Max (set (nonx lo)))
   \<or> (\<exists>s'. exec_list A w (map (map_cstmt r) (operand_init i lo dtype)) s = Inr s') \<and>
     \<not> (nonx lo \<noteq> [] \<and> ndim A (r (Lv i)) < 1 + int (Max (set (nonx lo))))"
proof -
  have ok: "adjust_ok A (r (Lv i)) dtype s (Lit 0) 0"
    by (simp add: adjust_ok_def)
  from jump_init_exec [OF ok, of w lo] obtain s2 where
    "exec_list A w (jump_init (r (Lv i)) dtype (rev (enumerate 0 lo)) (Lit 0)) s = Inr s2"
    by blast
  then show ?thesis
    unfolding map_operand_init by (simp add: exec_rank_check)
qed

lemma init_blocks_result:
  "exec_list A w (concat (map (\<lambda>(i, lo, dtype). map (map_cstmt r) (operand_init i lo dtype)) ops)) s =
     Inl (Failed (Some (not_enough_dims_msg, []))) \<and>
     (\<exists>(i, lo, dtype) \<in> set ops. nonx lo \<noteq> [] \<and> ndim A (r (Lv i)) < 1 + int (Max (set (nonx lo))))
   \<or> (\<exists>s'. exec_list A w (concat (map (\<lambda>(i, lo, dtype). map (map_cstmt r) (operand_init i lo dtype)) ops)) s = Inr s') \<and>
     \<not> (\<exists>(i, lo, dtype) \<in> set ops. nonx lo \<noteq> [] \<and> ndim A (r (Lv i)) < 1 + int (Max (set (nonx lo))))"
proof (induction ops arbitrary: s)
  case Nil
  then show ?case by simp
next
  case (Cons op ops)
  obtain i lo dtype where op: "op = (i, lo, dtype)"
    by (cases op) auto
  let ?bad = "nonx lo \<noteq> [] \<and> ndim A (r (Lv i)) < 1 + int (Max (set (nonx lo)))"
  from operand_block_result [of A w r i lo dtype s]
  consider "exec_list A w (map (map_cstmt r) (operand_init i lo dtype)) s =
              Inl (Failed (Some (not_enough_dims_msg, [])))" "?bad"
    | s1 where "exec_list A w (map (map_cstmt r) (operand_init i lo dtype)) s = Inr s1" "\<not> ?bad"
    by blast
  then show ?case
  proof cases
    case 1
    then show ?thesis by (simp add: op exec_list_append)
  next
    case 2
    then show ?thesis using Cons.IH [of s1] by (auto simp: op exec_list_append)
  qed
qed

lemma checks_check_result:
  "exec_list A w (map (map_cstmt r) cs) s = Inl (Failed (Some (m, []))) \<Longrightarrow>
   \<forall>c \<in> set cs. \<exists>j0 x0 j x. c = dim_check j0 x0 j x \<Longrightarrow> False"
proof (induction cs arbitrary: s)
  case Nil
  then show ?case by simp
next
  case (Cons c cs)
  from Cons.prems(2) obtain j0 x0 j x where c: "c = dim_check j0 x0 j x"
    by auto
  show ?case
  proof (cases "store s (N (r (Lv j0)) x0) \<noteq> store s (N (r (Lv j)) x)")
    case True
    then show ?thesis using Cons.prems(1) by (simp add: c exec_dim_check)
  next
    case False
    then have "exec_list A w (map (map_cstmt r) cs) s = Inl (Failed (Some (m, [])))"
      using Cons.prems(1) by (simp add: c exec_dim_check)
    then show ?thesis using Cons.IH Cons.prems(2) by simp
  qed
qed

lemma checks_check_dim_checks:
  "\<forall>c \<in> set (checks_check loop_orders). \<exists>j0 x0 j x. c = dim_check j0 x0 j x"
  by (auto simp: checks_check_def dest: column_checks_cases)

text \<open>
  Claim C7. The code of \<^verbatim>\<open>make_checks\<close> stops with the error "Not enough dimensions on
  input." exactly when some operand whose loop order holds a dimension index has fewer
  dimensions than 1 plus the largest such index; an operand whose loop order holds only
  \<^verbatim>\<open>'x'\<close> never causes this error.
\<close>

theorem rank_error_iff:
  assumes "make_checks loop_orders dtypes sub = Inr code"
  shows "exec_list A w code s = Inl (Failed (Some (not_enough_dims_msg, []))) \<longleftrightarrow>
     (\<exists>i var. i < length loop_orders \<and> i < length dtypes \<and> sub (Lv i) = Some var \<and>
        (\<exists>d. D d \<in> set (loop_orders ! i)) \<and>
        ndim A var < 1 + int (Max {d. D d \<in> set (loop_orders ! i)}))"
proof -
  let ?r = "\<lambda>k. the (sub k)"
  let ?ops = "enumerate 0 (zip loop_orders dtypes)"
  let ?init = "concat (map (\<lambda>(i, lo, dtype). map (map_cstmt ?r) (operand_init i lo dtype)) ?ops)"
  let ?check = "map (map_cstmt ?r) (checks_check loop_orders)"
  let ?bad = "\<exists>(i, lo, dtype) \<in> set ?ops. nonx lo \<noteq> [] \<and> ndim A (?r (Lv i)) < 1 + int (Max (set (nonx lo)))"
  from assms obtain init where init: "percent (checks_init loop_orders dtypes) sub = Inr init"
    by (auto simp: make_checks_def bind_py_eq_Inr)
  have code: "code = ?init @ ?check"
    using make_checks_Inr [OF assms] by (simp add: map_checks_init)
  have run: "exec_list A w code s = Inl (Failed (Some (not_enough_dims_msg, []))) \<longleftrightarrow> ?bad"
  proof (cases ?bad)
    case True
    then have "exec_list A w ?init s = Inl (Failed (Some (not_enough_dims_msg, [])))"
      using init_blocks_result [of A w ?r ?ops s] by auto
    then show ?thesis using True by (simp add: code exec_list_append)
  next
    case False
    then obtain s1 where s1: "exec_list A w ?init s = Inr s1"
      using init_blocks_result [of A w ?r ?ops s] by auto
    have "exec_list A w ?check s1 \<noteq> Inl (Failed (Some (not_enough_dims_msg, [])))"
      using checks_check_result [of A w ?r "checks_check loop_orders" s1 not_enough_dims_msg]
        checks_check_dim_checks by blast
    then show ?thesis using False s1 by (simp add: code exec_list_append)
  qed
  have key: "sub (Lv i) \<noteq> None"
    if "i < length ?ops" "nonx (loop_orders ! i) \<noteq> []" for i
  proof -
    have op: "?ops ! i = (i, loop_orders ! i, dtypes ! i)"
      using that(1) by (simp add: nth_enumerate_eq)
    have "loop_orders ! i \<noteq> []"
      using that(2) by (auto simp: nonx_def)
    from operand_init_mentions_var [OF this, of i "dtypes ! i"] obtain c where
      c: "c \<in> set (operand_init i (loop_orders ! i) (dtypes ! i))" "Lv i \<in> set_cstmt c"
      by blast
    have "(i, loop_orders ! i, dtypes ! i) \<in> set ?ops"
      using that(1) op by (metis nth_mem)
    then have "c \<in> set (checks_init loop_orders dtypes)"
      using c(1) unfolding checks_init_def by auto
    then show ?thesis
      using percent_keys [OF init] c(2) by blast
  qed
  have "?bad \<longleftrightarrow>
     (\<exists>i var. i < length loop_orders \<and> i < length dtypes \<and> sub (Lv i) = Some var \<and>
        (\<exists>d. D d \<in> set (loop_orders ! i)) \<and>
        ndim A var < 1 + int (Max {d. D d \<in> set (loop_orders ! i)}))" (is "_ \<longleftrightarrow> ?rhs")
  proof
    assume ?bad
    then obtain i lo dtype where mem: "(i, lo, dtype) \<in> set ?ops"
      and bad: "nonx lo \<noteq> []" "ndim A (?r (Lv i)) < 1 + int (Max (set (nonx lo)))"
      by blast
    from mem obtain p where p: "p < length ?ops" "?ops ! p = (i, lo, dtype)"
      by (auto simp: in_set_conv_nth)
    then have eq: "p = i" "lo = loop_orders ! i" and len: "i < length loop_orders" "i < length dtypes"
      by (auto simp: nth_enumerate_eq)
    from key [of i] p(1) bad(1) obtain var where var: "sub (Lv i) = Some var"
      unfolding eq by auto
    have "\<exists>d. D d \<in> set (loop_orders ! i)"
      using bad(1) unfolding eq by (simp add: nonx_empty)
    moreover have "ndim A var < 1 + int (Max {d. D d \<in> set (loop_orders ! i)})"
      using bad(2) var unfolding eq by (simp add: set_nonx)
    ultimately show ?rhs
      using len var by blast
  next
    assume ?rhs
    then obtain i var where i: "i < length loop_orders" "i < length dtypes" "sub (Lv i) = Some var"
      and d: "\<exists>d. D d \<in> set (loop_orders ! i)"
      and n: "ndim A var < 1 + int (Max {d. D d \<in> set (loop_orders ! i)})"
      by blast
    have "(i, loop_orders ! i, dtypes ! i) \<in> set ?ops"
      using i(1,2) by (auto simp: in_set_conv_nth nth_enumerate_eq intro!: exI [of _ i])
    moreover have "nonx (loop_orders ! i) \<noteq> []"
      using d by (simp add: nonx_empty)
    moreover have "ndim A (?r (Lv i)) < 1 + int (Max (set (nonx (loop_orders ! i))))"
      using n i(3) by (simp add: set_nonx)
    ultimately show ?bad by blast
  qed
  then show ?thesis using run by simp
qed

theorem rank_error_iff_witness:
  "\<exists>code. make_checks [[D 0, D 1], [X, D 0]] [''double'', ''double''] example_sub = Inr code \<and>
     exec_list (example_arrays\<lparr>ndim := \<lambda>var. 1\<rparr>) [] code example_state =
       Inl (Failed (Some (not_enough_dims_msg, [])))"
proof -
  let ?los = "[[D 0, D 1], [X, D 0]]"
  let ?dtypes = "[''double'', ''double'']"
  have "\<exists>code. make_checks ?los ?dtypes example_sub = Inr code"
    by (simp add: make_checks_def percent_def checks_init_def checks_check_def operand_init_def
        nonx_def rank_check_def zip_star_Cons_eval enumerate_eq_zip upt_rec column_checks_def
        to_compare_def dim_check_def example_sub_def Let_def)
  then obtain code where c: "make_checks ?los ?dtypes example_sub = Inr code"
    by blast
  have set: "{d. D d \<in> set (?los ! 0)} = {0, 1}"
    by auto
  have "0 < length ?los \<and> 0 < length ?dtypes \<and> example_sub (Lv 0) = Some ''a'' \<and>
        (\<exists>d. D d \<in> set (?los ! 0)) \<and>
        ndim (example_arrays\<lparr>ndim := \<lambda>var. 1\<rparr>) ''a'' < 1 + int (Max {d. D d \<in> set (?los ! 0)})"
    unfolding set by (auto simp: example_sub_def)
  then have "exec_list (example_arrays\<lparr>ndim := \<lambda>var. 1\<rparr>) [] code example_state =
       Inl (Failed (Some (not_enough_dims_msg, [])))"
    unfolding rank_error_iff [OF c] by blast
  then show ?thesis using c by blast
qed

lemma to_compare_enumerate:
  "set (concat (map (\<lambda>(j, x). case x of X \<Rightarrow> [] | D d \<Rightarrow> [(j, d)]) (enumerate n matches))) =
     {(j, d). n \<le> j \<and> j - n < length matches \<and> matches ! (j - n) = D d}
   \<and> sorted_wrt (<) (map fst (concat (map (\<lambda>(j, x). case x of X \<Rightarrow> [] | D d \<Rightarrow> [(j, d)])
                                       (enumerate n matches))))"
proof (induction matches arbitrary: n)
  case Nil
  then show ?case by simp
next
  case (Cons e matches)
  let ?f = "\<lambda>(j, x). case x of X \<Rightarrow> [] | D d \<Rightarrow> [(j, d)]"
  let ?rest = "concat (map ?f (enumerate (Suc n) matches))"
  have set: "set ?rest = {(j, d). Suc n \<le> j \<and> j - Suc n < length matches \<and> matches ! (j - Suc n) = D d}"
    and sorted: "sorted_wrt (<) (map fst ?rest)"
    using Cons.IH [of "Suc n"] by simp_all
  have shift: "{(j, d). Suc n \<le> j \<and> j - Suc n < length matches \<and> matches ! (j - Suc n) = D d} =
     {(j, d). n < j \<and> j - n < length (e # matches) \<and> (e # matches) ! (j - n) = D d}"
  proof -
    have "j - n < length (e # matches) \<longleftrightarrow> j - Suc n < length matches"
      and "(e # matches) ! (j - n) = matches ! (j - Suc n)" if "n < j" for j
    proof -
      have "j - n = Suc (j - Suc n)"
        using that by simp
      then show "j - n < length (e # matches) \<longleftrightarrow> j - Suc n < length matches"
        and "(e # matches) ! (j - n) = matches ! (j - Suc n)"
        by simp_all
    qed
    then show ?thesis
      by (auto simp: Suc_le_eq)
  qed
  show ?case
  proof (cases e)
    case X
    have "{(j, d). n \<le> j \<and> j - n < length (e # matches) \<and> (e # matches) ! (j - n) = D d} =
          {(j, d). n < j \<and> j - n < length (e # matches) \<and> (e # matches) ! (j - n) = D d}"
      using X by (auto simp: nth_Cons le_less split: nat.splits)
    then show ?thesis
      using X set sorted shift by simp
  next
    case (D d0)
    have "{(j, d). n \<le> j \<and> j - n < length (e # matches) \<and> (e # matches) ! (j - n) = D d} =
          insert (n, d0) {(j, d). n < j \<and> j - n < length (e # matches) \<and> (e # matches) ! (j - n) = D d}"
      using D by (auto simp: nth_Cons le_less split: nat.splits)
    moreover have "\<forall>p \<in> set ?rest. n < fst p"
      unfolding set by auto
    ultimately show ?thesis
      using D set sorted shift by simp
  qed
qed

lemma set_to_compare:
  "(j, d) \<in> set (to_compare matches) \<longleftrightarrow> j < length matches \<and> matches ! j = D d"
  using to_compare_enumerate [of 0 matches] by (auto simp: to_compare_def)

lemma sorted_to_compare: "sorted_wrt (<) (map fst (to_compare matches))"
  using to_compare_enumerate [of 0 matches] by (simp add: to_compare_def)

lemma to_compare_Cons:
  assumes "to_compare matches = (j0, x0) # later"
  shows "j0 < length matches" and "matches ! j0 = D x0" and "\<forall>k<j0. matches ! k = X"
    and "(j, x) \<in> set later \<longleftrightarrow> j0 < j \<and> j < length matches \<and> matches ! j = D x"
proof -
  have mem: "(j0, x0) \<in> set (to_compare matches)"
    using assms by simp
  then show 1: "j0 < length matches" and 2: "matches ! j0 = D x0"
    by (simp_all add: set_to_compare)
  have above: "\<forall>p \<in> set later. j0 < fst p"
    using sorted_to_compare [of matches] unfolding assms by auto
  show "\<forall>k<j0. matches ! k = X"
  proof (intro allI impI)
    fix k assume k: "k < j0"
    show "matches ! k = X"
    proof (cases "matches ! k")
      case X
      then show ?thesis .
    next
      case (D d)
      then have "(k, d) \<in> set (to_compare matches)"
        using k 1 by (simp add: set_to_compare)
      then have "(k, d) \<in> set later"
        using k unfolding assms by auto
      then show ?thesis using above k by auto
    qed
  qed
  show "(j, x) \<in> set later \<longleftrightarrow> j0 < j \<and> j < length matches \<and> matches ! j = D x"
  proof
    assume "(j, x) \<in> set later"
    then have "j0 < j" and "(j, x) \<in> set (to_compare matches)"
      using above unfolding assms by auto
    then show "j0 < j \<and> j < length matches \<and> matches ! j = D x"
      by (simp add: set_to_compare)
  next
    assume "j0 < j \<and> j < length matches \<and> matches ! j = D x"
    then have "(j, x) \<in> set (to_compare matches)" "j \<noteq> j0"
      by (simp_all add: set_to_compare)
    then show "(j, x) \<in> set later"
      unfolding assms by simp
  qed
qed

lemma column_checks_eq:
  "column_checks matches =
     (case to_compare matches of [] \<Rightarrow> []
      | (j0, x0) # later \<Rightarrow> map (\<lambda>(j, x). dim_check j0 x0 j x) later)"
  by (auto simp: column_checks_def split: list.splits)

lemma column_checks_mem:
  "c \<in> set (column_checks matches) \<longleftrightarrow>
     (\<exists>j0 x0 j x. c = dim_check j0 x0 j x \<and> j0 < j \<and> j < length matches \<and>
        matches ! j0 = D x0 \<and> (\<forall>k<j0. matches ! k = X) \<and> matches ! j = D x)"
proof (cases "to_compare matches")
  case Nil
  have "\<not> (j < length matches \<and> matches ! j = D x)" for j x
    using set_to_compare [of j x matches] Nil by simp
  then show ?thesis
    unfolding column_checks_eq Nil by auto
next
  case (Cons p later)
  obtain a xa where p: "p = (a, xa)" by (cases p) auto
  note tc = to_compare_Cons [OF Cons [unfolded p]]
  show ?thesis
  proof
    assume "c \<in> set (column_checks matches)"
    then obtain j x where "(j, x) \<in> set later" "c = dim_check a xa j x"
      unfolding column_checks_eq Cons p by auto
    then show "\<exists>j0 x0 j x. c = dim_check j0 x0 j x \<and> j0 < j \<and> j < length matches \<and>
        matches ! j0 = D x0 \<and> (\<forall>k<j0. matches ! k = X) \<and> matches ! j = D x"
      using tc by blast
  next
    assume "\<exists>j0 x0 j x. c = dim_check j0 x0 j x \<and> j0 < j \<and> j < length matches \<and>
        matches ! j0 = D x0 \<and> (\<forall>k<j0. matches ! k = X) \<and> matches ! j = D x"
    then obtain j0 x0 j x where c: "c = dim_check j0 x0 j x" and lt: "j0 < j" "j < length matches"
      and first: "matches ! j0 = D x0" "\<forall>k<j0. matches ! k = X" and later: "matches ! j = D x"
      by blast
    have "j0 = a"
    proof (rule ccontr)
      assume "j0 \<noteq> a"
      then consider "j0 < a" | "a < j0" by linarith
      then show False
      proof cases
        case 1
        then show ?thesis using tc(3) first(1) by auto
      next
        case 2
        then show ?thesis using first(2) tc(2) by auto
      qed
    qed
    then have "x0 = xa"
      using first(1) tc(2) by simp
    have "(j, x) \<in> set later"
      using tc(4) [of j x] lt later \<open>j0 = a\<close> by simp
    then show "c \<in> set (column_checks matches)"
      unfolding column_checks_eq Cons p c \<open>j0 = a\<close> \<open>x0 = xa\<close> by auto
  qed
qed

lemma zip_star_length_iff:
  "i < length (zip_star xss) \<longleftrightarrow> xss \<noteq> [] \<and> (\<forall>xs \<in> set xss. i < length xs)"
proof (cases "xss = []")
  case True
  then show ?thesis by (simp add: zip_star_def)
next
  case False
  then have "i < Min (set (map length xss)) \<longleftrightarrow> (\<forall>xs \<in> set xss. i < length xs)"
    by (subst Min_gr_iff) auto
  then show ?thesis using False by (simp add: zip_star_def)
qed

lemma jump_init_assigns:
  "c \<in> set (jump_init var dtype xs adjust) \<Longrightarrow> \<exists>v e. c = Assign v e"
  by (induction var dtype xs adjust rule: jump_init.induct) auto

lemma operand_init_cases:
  "c \<in> set (operand_init i lo dtype) \<Longrightarrow>
     (\<exists>v e. c = Assign v e) \<or> (\<exists>var min_nd fail. c = rank_check var min_nd fail)"
proof -
  assume "c \<in> set (operand_init i lo dtype)"
  then consider "c = rank_check (Lv i) (Max (set (nonx lo)) + 1) Fail_key"
    | "c \<in> set (jump_init (Lv i) dtype (rev (enumerate 0 lo)) (Lit 0))"
    by (auto simp: operand_init_def Let_def split: if_splits)
  then show ?thesis
  proof cases
    case 1
    then show ?thesis by blast
  next
    case 2
    from jump_init_assigns [OF this] show ?thesis by simp
  qed
qed

lemma checks_init_cases:
  "c \<in> set (checks_init loop_orders dtypes) \<Longrightarrow>
     (\<exists>v e. c = Assign v e) \<or> (\<exists>var min_nd fail. c = rank_check var min_nd fail)"
  by (auto simp: checks_init_def dest: operand_init_cases)

lemma map_dim_check_eq:
  "map_cstmt r (dim_check a xa b xb) = map_cstmt r (dim_check j0 x0 j x) \<Longrightarrow>
     a = j0 \<and> xa = x0 \<and> b = j \<and> xb = x"
  by (simp add: dim_check_def)

lemma dim_check_mem_code:
  assumes "make_checks loop_orders dtypes sub = Inr code"
  shows "map_cstmt (\<lambda>k. the (sub k)) (dim_check a xa b xb) \<in> set code \<longleftrightarrow>
     (\<exists>i. loop_orders \<noteq> [] \<and> (\<forall>lo \<in> set loop_orders. i < length lo) \<and>
          a < b \<and> b < length loop_orders \<and>
          loop_orders ! a ! i = D xa \<and> (\<forall>k<a. loop_orders ! k ! i = X) \<and>
          loop_orders ! b ! i = D xb)" (is "?c \<in> set code \<longleftrightarrow> ?rhs")
proof -
  let ?r = "\<lambda>k. the (sub k)"
  have code: "code = map (map_cstmt ?r) (checks_init loop_orders dtypes)
                   @ map (map_cstmt ?r) (checks_check loop_orders)"
    by (rule make_checks_Inr [OF assms])
  have not_init: "?c \<notin> set (map (map_cstmt ?r) (checks_init loop_orders dtypes))"
  proof
    assume "?c \<in> set (map (map_cstmt ?r) (checks_init loop_orders dtypes))"
    then obtain c' where "c' \<in> set (checks_init loop_orders dtypes)" "?c = map_cstmt ?r c'"
      by auto
    then show False
      using checks_init_cases [of c' loop_orders dtypes]
      by (auto simp: dim_check_def rank_check_def)
  qed
  have col: "zip_star loop_orders ! i = map (\<lambda>lo. lo ! i) loop_orders"
    if "i < length (zip_star loop_orders)" for i
    using that zip_star_index(2) [of loop_orders i] by (simp add: zip_star_length_iff)
  have "?c \<in> set (map (map_cstmt ?r) (checks_check loop_orders)) \<longleftrightarrow> ?rhs"
  proof
    assume "?c \<in> set (map (map_cstmt ?r) (checks_check loop_orders))"
    then obtain c' matches where m: "matches \<in> set (zip_star loop_orders)"
      and c': "c' \<in> set (column_checks matches)" "?c = map_cstmt ?r c'"
      by (auto simp: checks_check_def)
    from m obtain i where i: "i < length (zip_star loop_orders)" "matches = zip_star loop_orders ! i"
      by (auto simp: in_set_conv_nth)
    from c'(1) obtain j0 x0 j x where d: "c' = dim_check j0 x0 j x" "j0 < j" "j < length matches"
      "matches ! j0 = D x0" "\<forall>k<j0. matches ! k = X" "matches ! j = D x"
      unfolding column_checks_mem by blast
    have eq: "a = j0" "xa = x0" "b = j" "xb = x"
      using map_dim_check_eq [of ?r a xa b xb j0 x0 j x] c'(2) d(1) by simp_all
    have matches: "matches = map (\<lambda>lo. lo ! i) loop_orders"
      using i col by simp
    have "\<forall>k<a. loop_orders ! k ! i = X"
      using d(5) d(2,3) unfolding matches eq by simp
    then show ?rhs
      using d(2-4,6) i(1) unfolding matches eq zip_star_length_iff
      by (intro exI [of _ i]) simp
  next
    assume ?rhs
    then obtain i where i: "loop_orders \<noteq> []" "\<forall>lo \<in> set loop_orders. i < length lo"
      and ab: "a < b" "b < length loop_orders"
      and e: "loop_orders ! a ! i = D xa" "\<forall>k<a. loop_orders ! k ! i = X" "loop_orders ! b ! i = D xb"
      by blast
    let ?matches = "map (\<lambda>lo. lo ! i) loop_orders"
    have len: "i < length (zip_star loop_orders)"
      using i by (simp add: zip_star_length_iff)
    have "dim_check a xa b xb \<in> set (column_checks ?matches)"
      unfolding column_checks_mem using ab e by (intro exI [of _ a] exI [of _ xa] exI [of _ b] exI [of _ xb]) simp
    moreover have "?matches \<in> set (zip_star loop_orders)"
      using len col [OF len] by (metis nth_mem)
    ultimately have "dim_check a xa b xb \<in> set (checks_check loop_orders)"
      by (auto simp: checks_check_def)
    then show "?c \<in> set (map (map_cstmt ?r) (checks_check loop_orders))"
      by simp
  qed
  then show ?thesis
    using not_init unfolding code by simp
qed

text \<open>
  Claim C9. Every statement of the code of \<^verbatim>\<open>make_checks\<close> is an assignment, a rank
  check or a comparison of two lengths, and the comparison of operand \<open>a\<close> (dimension
  \<open>xa\<close>) with operand \<open>b\<close> (dimension \<open>xb\<close>), which names \<open>a\<close> first in its error
  messages, is in the code exactly when at some position \<open>i\<close> of the loop orders \<open>a\<close> is
  the first operand with a dimension index and \<open>b\<close> is a later operand with a dimension
  index. So a position where fewer than two operands have a dimension index has no
  comparison, and no comparison is between two later operands.
\<close>

theorem checks_only_against_first:
  assumes "make_checks loop_orders dtypes sub = Inr code"
  shows "(\<forall>c \<in> set code.
            (\<exists>v e. c = Assign v e) \<or> (\<exists>var min_nd fail. c = rank_check var min_nd fail) \<or>
            (\<exists>a xa b xb. c = map_cstmt (\<lambda>k. the (sub k)) (dim_check a xa b xb)))
       \<and> (\<forall>a xa b xb.
            map_cstmt (\<lambda>k. the (sub k)) (dim_check a xa b xb) \<in> set code \<longleftrightarrow>
            (\<exists>i. loop_orders \<noteq> [] \<and> (\<forall>lo \<in> set loop_orders. i < length lo) \<and>
                 a < b \<and> b < length loop_orders \<and>
                 loop_orders ! a ! i = D xa \<and> (\<forall>k<a. loop_orders ! k ! i = X) \<and>
                 loop_orders ! b ! i = D xb))"
proof -
  let ?r = "\<lambda>k. the (sub k)"
  have code: "code = map (map_cstmt ?r) (checks_init loop_orders dtypes)
                   @ map (map_cstmt ?r) (checks_check loop_orders)"
    by (rule make_checks_Inr [OF assms])
  have "(\<exists>v e. c = Assign v e) \<or> (\<exists>var min_nd fail. c = rank_check var min_nd fail) \<or>
        (\<exists>a xa b xb. c = map_cstmt ?r (dim_check a xa b xb))" if "c \<in> set code" for c
  proof -
    from that consider c' where "c' \<in> set (checks_init loop_orders dtypes)" "c = map_cstmt ?r c'"
      | c' where "c' \<in> set (checks_check loop_orders)" "c = map_cstmt ?r c'"
      unfolding code by auto
    then show ?thesis
    proof cases
      case 1
      then show ?thesis
        using checks_init_cases [of c' loop_orders dtypes] by (auto simp: rank_check_def)
    next
      case 2
      then obtain a xa b xb where "c' = dim_check a xa b xb"
        using checks_check_dim_checks [of loop_orders] by blast
      then show ?thesis
        using 2(2) by blast
    qed
  qed
  then show ?thesis
    using dim_check_mem_code [OF assms] by blast
qed

text \<open>
  Claim C3. For the first operand \<open>j0\<close> and a later operand \<open>j\<close> that both have a
  dimension index at position \<open>i\<close>, the code of \<^verbatim>\<open>make_checks\<close> holds their comparison;
  run in a state where the two length variables differ, it stops with the
  runtime-broadcast message when one of the lengths is 1 and with the dimension-mismatch
  message when neither is, and in both cases the exception carries the two operand
  indices, the two dimension indices and the two lengths. The two messages differ.
\<close>

theorem dimension_check_errors:
  assumes "make_checks loop_orders dtypes sub = Inr code"
    and "loop_orders \<noteq> []" and "\<forall>lo \<in> set loop_orders. i < length lo"
    and "j0 < j" and "j < length loop_orders"
    and "loop_orders ! j0 ! i = D x0" and "\<forall>k<j0. loop_orders ! k ! i = X"
    and "loop_orders ! j ! i = D x"
    and "sub (Lv j0) = Some var0" and "sub (Lv j) = Some var"
    and "store s (N var0 x0) \<noteq> store s (N var x)"
  shows "\<exists>c \<in> set code.
      c = map_cstmt (\<lambda>k. the (sub k)) (dim_check j0 x0 j x) \<and>
      (store s (N var0 x0) = 1 \<or> store s (N var x) = 1 \<longrightarrow>
         exec A w c s = Inl (Failed (Some (runtime_broadcast_error_msg,
           [int j0, int x0, store s (N var0 x0), int j, int x, store s (N var x)])))) \<and>
      (store s (N var0 x0) \<noteq> 1 \<and> store s (N var x) \<noteq> 1 \<longrightarrow>
         exec A w c s = Inl (Failed (Some (dimension_mismatch_msg,
           [int j0, int x0, store s (N var0 x0), int j, int x, store s (N var x)])))) \<and>
      runtime_broadcast_error_msg \<noteq> dimension_mismatch_msg"
proof -
  let ?c = "map_cstmt (\<lambda>k. the (sub k)) (dim_check j0 x0 j x)"
  have "?c \<in> set code"
    unfolding dim_check_mem_code [OF assms(1)] using assms(2-8) by blast
  moreover have "runtime_broadcast_error_msg \<noteq> dimension_mismatch_msg"
    by (simp add: runtime_broadcast_error_msg_def dimension_mismatch_msg_def)
  ultimately show ?thesis
    using assms(9-11) by (auto simp: exec_dim_check)
qed

theorem checks_only_against_first_witness:
  "\<exists>code. make_checks [[D 0], [D 0], [D 0]] [''double'', ''double'', ''double''] example_sub = Inr code \<and>
     map_cstmt (\<lambda>k. the (example_sub k)) (dim_check 0 0 1 0) \<in> set code \<and>
     map_cstmt (\<lambda>k. the (example_sub k)) (dim_check 0 0 2 0) \<in> set code \<and>
     map_cstmt (\<lambda>k. the (example_sub k)) (dim_check 1 0 2 0) \<notin> set code"
proof -
  let ?los = "[[D 0], [D 0], [D 0]]"
  let ?dtypes = "[''double'', ''double'', ''double'']"
  have "\<exists>code. make_checks ?los ?dtypes example_sub = Inr code"
    by (simp add: make_checks_def percent_def checks_init_def checks_check_def operand_init_def
        nonx_def rank_check_def zip_star_Cons_eval enumerate_eq_zip upt_rec column_checks_def
        to_compare_def dim_check_def example_sub_def Let_def)
  then obtain code where c: "make_checks ?los ?dtypes example_sub = Inr code"
    by blast
  note iff = checks_only_against_first [OF c, THEN conjunct2, rule_format]
  have "map_cstmt (\<lambda>k. the (example_sub k)) (dim_check 0 0 1 0) \<in> set code"
    unfolding iff by (intro exI [of _ 0]) simp
  moreover have "map_cstmt (\<lambda>k. the (example_sub k)) (dim_check 0 0 2 0) \<in> set code"
    unfolding iff by (intro exI [of _ 0]) simp
  moreover have "map_cstmt (\<lambda>k. the (example_sub k)) (dim_check 1 0 2 0) \<notin> set code"
    unfolding iff by auto
  ultimately show ?thesis using c by blast
qed

theorem dimension_check_errors_witness:
  "\<exists>code c. make_checks [[D 0, D 1], [X, D 0]] [''double'', ''double''] example_sub = Inr code \<and>
     c \<in> set code \<and>
     exec example_arrays [] c
       (example_state\<lparr>store := (store example_state)(N ''a'' 1 := 1, N ''b'' 0 := 2)\<rparr>) =
       Inl (Failed (Some (runtime_broadcast_error_msg, [0, 1, 1, 1, 0, 2])))"
proof -
  let ?los = "[[D 0, D 1], [X, D 0]]"
  let ?dtypes = "[''double'', ''double'']"
  let ?s = "example_state\<lparr>store := (store example_state)(N ''a'' 1 := 1, N ''b'' 0 := 2)\<rparr>"
  have "\<exists>code. make_checks ?los ?dtypes example_sub = Inr code"
    by (simp add: make_checks_def percent_def checks_init_def checks_check_def operand_init_def
        nonx_def rank_check_def zip_star_Cons_eval enumerate_eq_zip upt_rec column_checks_def
        to_compare_def dim_check_def example_sub_def Let_def)
  then obtain code where c: "make_checks ?los ?dtypes example_sub = Inr code"
    by blast
  have h: "?los \<noteq> []" "\<forall>lo \<in> set ?los. 1 < length lo" "(0::nat) < 1" "1 < length ?los"
    "?los ! 0 ! 1 = D 1" "\<forall>k<0. ?los ! k ! 1 = X" "?los ! 1 ! 1 = D 0"
    "example_sub (Lv 0) = Some ''a''" "example_sub (Lv 1) = Some ''b''"
    "store ?s (N ''a'' 1) \<noteq> store ?s (N ''b'' 0)"
    by (simp_all add: example_sub_def)
  from dimension_check_errors [OF c h, of example_arrays "[]"] obtain ch where
    "ch \<in> set code" "store ?s (N ''a'' 1) = 1 \<or> store ?s (N ''b'' 0) = 1 \<longrightarrow>
         exec example_arrays [] ch ?s = Inl (Failed (Some (runtime_broadcast_error_msg,
           [int 0, int 1, store ?s (N ''a'' 1), int 1, int 0, store ?s (N ''b'' 0)])))"
    by blast
  then have "ch \<in> set code \<and> exec example_arrays [] ch ?s =
      Inl (Failed (Some (runtime_broadcast_error_msg, [0, 1, 1, 1, 0, 2])))"
    by simp
  then show ?thesis using c by blast
qed

section \<open>The code of make_reordered_loop\<close>














section \<open>Two nests of two levels\<close>

text \<open>
  Claim C5. With \<^verbatim>\<open>openmp\<close> set, \<^verbatim>\<open>make_loop\<close> puts the line
  \<^verbatim>\<open>#pragma omp parallel for if( n >= minsize )\<close> before the loop of every level, here
  before both loops of a nest of two levels, each with the bound of its own level, while
  the loop of \<^verbatim>\<open>make_reordered_loop\<close> puts it before the loop of level 0 only. The claim
  says that both functions mark the outermost loop only.
\<close>

theorem canonical_pragma_at_every_level:
  "make_loop [[D 0, D 1]] [''double''] ([([], []), ([], ''T'')], []) example_sub True 200000 =
     Inr (Block
       [Assign (IterP ''a'') (PyArray_DATA ''a'' ''double''),
        Task [],
        ForUp (Some (Ge (V (N ''a'' 0)) (Lit 200000))) 0 (V (N ''a'' 0))
          [DeclRef ''double'' ''a'' (Add (V (IterP ''a'')) (Mul (V (ITER 0)) (V (Jump ''a'' (D 0) 0)))),
           Task [],
           ForUp (Some (Ge (V (N ''a'' 1)) (Lit 200000))) 1 (V (N ''a'' 1))
             [DeclRef ''double'' ''a''
                (Add (V (IterP ''a'')) (Mul (V (ITER 1)) (V (Jump ''a'' (D 1) 1)))),
              Task ''T''],
           Task []],
        Task []]) \<and>
   reordered_loop_nest 2 True 200000 [] ''T'' =
     [ForUp (Some (Ge (V (TOTAL 0)) (Lit 200000))) 0 (V (TOTAL 0))
        [ForUp None 1 (V (TOTAL 1)) [Task ''T'']]]"
  by (simp add: make_loop_def loop_over_def zip_star_Cons_eval enumerate_eq_zip upt_rec
      example_sub_def lookup_def preloop_level_def get_code_def reordered_loop_nest_def)

text \<open>
  The code generated for one operand \<^verbatim>\<open>a\<close> with the loop order \<^verbatim>\<open>(0, 1)\<close> and the task
  \<^verbatim>\<open>T\<close> at the inner level.
\<close>

lemma example_make_checks:
  "make_checks [[D 0, D 1]] [''double''] example_sub =
     Inr [rank_check ''a'' 2 ''fail'',
          Assign (N ''a'' 1) (PyArray_DIMS ''a'' 1),
          Assign (Stride ''a'' 1) (Strides_Div ''a'' 1 ''double''),
          Assign (Jump ''a'' (D 1) 1) (Sub (V (Stride ''a'' 1)) (Lit 0)),
          Assign (N ''a'' 0) (PyArray_DIMS ''a'' 0),
          Assign (Stride ''a'' 0) (Strides_Div ''a'' 0 ''double''),
          Assign (Jump ''a'' (D 0) 0)
            (Sub (V (Stride ''a'' 0)) (Mul (V (N ''a'' 1)) (V (Stride ''a'' 1))))]"
  by (simp add: make_checks_def percent_def checks_init_def checks_check_def operand_init_def
      nonx_def rank_check_def zip_star_Cons_eval enumerate_eq_zip upt_rec column_checks_def
      to_compare_def example_sub_def Let_def)

lemma example_make_loop:
  "make_loop [[D 0, D 1]] [''double''] ([([], []), ([], ''T'')], []) example_sub False 0 =
     Inr (Block
       [Assign (IterP ''a'') (PyArray_DATA ''a'' ''double''),
        Task [],
        ForUp None 0 (V (N ''a'' 0))
          [DeclRef ''double'' ''a'' (Add (V (IterP ''a'')) (Mul (V (ITER 0)) (V (Jump ''a'' (D 0) 0)))),
           Task [],
           ForUp None 1 (V (N ''a'' 1))
             [DeclRef ''double'' ''a''
                (Add (V (IterP ''a'')) (Mul (V (ITER 1)) (V (Jump ''a'' (D 1) 1)))),
              Task ''T''],
           Task []],
        Task []])"
  by (simp add: make_loop_def loop_over_def zip_star_Cons_eval enumerate_eq_zip upt_rec
      example_sub_def lookup_def preloop_level_def get_code_def)

lemma example_make_loop_careduce:
  "make_loop_careduce [[D 0, D 1]] [''double''] ([([], []), ([], ''T'')], []) example_sub =
     Inr (Block
       [Assign (IterP ''a'') (PyArray_DATA ''a'' ''double''),
        Task [],
        ForDown 0 (V (N ''a'' 0))
          [Task [],
           ForDown 1 (V (N ''a'' 1))
             [Task ''T'', AddAssign (IterP ''a'') (V (Jump ''a'' (D 1) 1))],
           Task [],
           AddAssign (IterP ''a'') (V (Jump ''a'' (D 0) 0))],
        Task []])"
  by (simp add: make_loop_careduce_def loop_over_careduce_def zip_star_Cons_eval enumerate_eq_zip
      upt_rec example_sub_def lookup_def preloop_level_def get_code_def)

text \<open>
  Claim C8. The array \<^verbatim>\<open>a\<close> has two rows of two elements, with strides of 2 elements
  and 1 element, and its data starts at address 0. After the initialisation of
  \<^verbatim>\<open>make_checks\<close>, the nest of \<^verbatim>\<open>make_loop_careduce\<close> runs the task \<^verbatim>\<open>T\<close> with the
  pointer \<^verbatim>\<open>a_iter\<close> at the addresses 0, 1, 2, 3, and the nest of \<^verbatim>\<open>make_loop\<close> runs it
  with the reference \<^verbatim>\<open>a_i\<close> at the addresses 0, 1, 0, 1: the reference of the inner
  level is \<^verbatim>\<open>a_iter + ITER_1 * a_jump1_1\<close>, and \<^verbatim>\<open>a_iter\<close> stays at the start of the data.
  The claim says that both nests visit the same positions in the same order.
\<close>

theorem canonical_and_reduction_positions_differ:
  "\<exists>init canonical reduction s1 s2.
     make_checks [[D 0, D 1]] [''double''] example_sub = Inr init \<and>
     make_loop [[D 0, D 1]] [''double''] ([([], []), ([], ''T'')], []) example_sub False 0 =
       Inr canonical \<and>
     make_loop_careduce [[D 0, D 1]] [''double''] ([([], []), ([], ''T'')], []) example_sub =
       Inr reduction \<and>
     exec_list example_arrays [Elem ''a''] (init @ [canonical]) example_state = Inr s1 \<and>
     exec_list example_arrays [IterP ''a''] (init @ [reduction]) example_state = Inr s2 \<and>
     map snd (filter (\<lambda>r. fst r = ''T'') (trace s1)) = [[0], [1], [0], [1]] \<and>
     map snd (filter (\<lambda>r. fst r = ''T'') (trace s2)) = [[0], [1], [2], [3]]"
  unfolding example_make_checks example_make_loop example_make_loop_careduce
  by (simp add: rank_check_def example_arrays_def example_state_def leave_loop_def upt_rec
      wrap_def wrap32_def wrap64_def)

end
